theory Spec2Isabelle
  imports Main "HOL-Library.AList"
begin

section \<open>Abiquo inventory script: string helpers\<close>

text \<open>
  Python's \<open>s.replace(old, new)\<close> for a one-character \<open>old\<close>: every occurrence of the
  character is replaced by the string \<open>new\<close>, the other characters are kept in order.
\<close>

fun replace :: "char \<Rightarrow> string \<Rightarrow> string \<Rightarrow> string" where
  "replace old new [] = []"
| "replace old new (c # cs) = (if c = old then new @ replace old new cs else c # replace old new cs)"

text \<open>
  The chain \<open>.replace('[','').replace(']','').replace(' ','_')\<close> that
  \<open>generate_inv_from_api\<close> applies to the four link titles and to the keys and values
  of the custom variables (the source repeats the chain at each of the six places).
\<close>

definition sanitize :: "string \<Rightarrow> string" where
  "sanitize s = replace CHR '' '' ''_'' (replace CHR '']'' [] (replace CHR ''['' [] s))"

text \<open>
  Python's \<open>sub in s\<close> on strings: \<open>sub\<close> occurs in \<open>s\<close> as a contiguous run.
\<close>

fun contains :: "string \<Rightarrow> string \<Rightarrow> bool" where
  "contains sub [] = (sub = [])"
| "contains sub (c # cs) = (take (length sub) (c # cs) = sub \<or> contains sub cs)"

text \<open>Python's \<open>s.startswith(p)\<close>.\<close>

definition startswith :: "string \<Rightarrow> string \<Rightarrow> bool" where
  "startswith s p = (take (length p) s = p)"

text \<open>The decimal digits of a natural number, and \<open>"%d" % n\<close> for an integer.\<close>

fun dec :: "nat \<Rightarrow> string" where
  "dec n = (if n < 10 then [''0123456789'' ! n] else dec (n div 10) @ [''0123456789'' ! (n mod 10)])"

declare dec.simps [simp del]

definition show_int :: "int \<Rightarrow> string" where
  "show_int i = (if i < 0 then ''-'' @ dec (nat (- i)) else dec (nat i))"

section \<open>Data model\<close>

text \<open>
  The values that \<open>json.loads\<close> produces. Numbers are integers: the script formats and
  compares integers only (sequence numbers, status codes), JSON floats are left out.
  An object is an association list; a Python dict has one entry per key.
\<close>

datatype json = JNull | JBool bool | JNum int | JStr string | JArr "json list"
  | JObj "(string \<times> json) list"

type_synonym 'a dict = "(string \<times> 'a) list"

text \<open>The exceptions (subclasses of \<open>Exception\<close>) that the script can meet.\<close>

datatype py_error = KeyError string | TypeError | AttributeError | NameError string
  | RuntimeError | IOError | ValueError | NoOptionError string | ApiError int
  | OtherError string

text \<open>\<open>d[k]\<close> on a dict: the value, or \<open>KeyError\<close>.\<close>

definition getitem :: "'a dict \<Rightarrow> string \<Rightarrow> py_error + 'a" where
  "getitem d k = (case map_of d k of None \<Rightarrow> Inl (KeyError k) | Some v \<Rightarrow> Inr v)"

text \<open>
  \<open>dict(items)\<close>: the entries are stored from left to right, a later entry for a key
  replaces the earlier one. \<open>d[k] = v\<close> is \<open>AList.update k v d\<close>, \<open>del d[k]\<close> is
  \<open>AList.delete k d\<close>.
\<close>

definition dict_of :: "(string \<times> 'a) list \<Rightarrow> 'a dict" where
  "dict_of items = fold (\<lambda>(k, v) d. AList.update k v d) items []"

text \<open>
  A link of the API, \<open>{rel, title, type}\<close>: the relation is always there, the title
  and the media type may be missing (reading a missing one raises \<open>KeyError\<close>).
\<close>

record link =
  link_rel :: string
  link_title :: "string option"
  link_type :: "string option"

definition get_title :: "link \<Rightarrow> py_error + string" where
  "get_title l = (case link_title l of None \<Rightarrow> Inl (KeyError ''title'') | Some t \<Rightarrow> Inr t)"

definition get_type :: "link \<Rightarrow> py_error + string" where
  "get_type l = (case link_type l of None \<Rightarrow> Inl (KeyError ''type'') | Some t \<Rightarrow> Inr t)"

text \<open>
  The JSON object of a network interface, a hard disk or a volume: its list of links
  (\<open>x['links']\<close>) and its other entries (\<open>sequence\<close> among them).
\<close>

record entity =
  ent_attrs :: "json dict"
  ent_links :: "link list"

text \<open>\<open>"%d" % v\<close>: integers and booleans are formatted, any other value is a \<open>TypeError\<close>.\<close>

fun format_d :: "json \<Rightarrow> py_error + string" where
  "format_d (JNum n) = Inr (show_int n)"
| "format_d (JBool b) = Inr (if b then ''1'' else ''0'')"
| "format_d _ = Inl TypeError"

text \<open>A loop whose body may raise: the first exception ends it.\<close>

fun fold_err :: "('a \<Rightarrow> 's \<Rightarrow> py_error + 's) \<Rightarrow> 'a list \<Rightarrow> 's \<Rightarrow> py_error + 's" where
  "fold_err f [] s = Inr s"
| "fold_err f (x # xs) s = (case f x s of Inl e \<Rightarrow> Inl e | Inr s' \<Rightarrow> fold_err f xs s')"

section \<open>Field flattener\<close>

text \<open>
  The inner loop shared by \<open>nic_json_to_dict\<close> and \<open>disk_json_to_dict\<close>:
  \<open>for key in x: if key != 'links': d["%s_%s" % (x_rel, key)] = x[key]\<close>.
\<close>

definition flatten_attrs :: "string \<Rightarrow> json dict \<Rightarrow> json dict \<Rightarrow> json dict" where
  "flatten_attrs x_rel x d =
     fold (\<lambda>(key, v) d. if key \<noteq> ''links'' then AList.update (x_rel @ ''_'' @ key) v d else d) x d"

text \<open>One round of the loop of \<open>nic_json_to_dict\<close>.\<close>

definition nic_step :: "entity \<Rightarrow> json dict \<Rightarrow> py_error + json dict" where
  "nic_step nic nic_dict =
     (case getitem (ent_attrs nic) ''sequence'' of Inl e \<Rightarrow> Inl e
      | Inr s \<Rightarrow>
     (case format_d s of Inl e \<Rightarrow> Inl e
      | Inr n \<Rightarrow>
        let nic_rel = ''nic'' @ n;
            d = flatten_attrs nic_rel (ent_attrs nic) nic_dict;
            netlink = filter (\<lambda>x. contains ''network'' (link_rel x)) (ent_links nic)
        in if length netlink > 0
           then Inr (AList.update (nic_rel @ ''_net_type'') (JStr (link_rel (netlink ! 0))) d)
           else Inr d))"

definition nic_json_to_dict :: "entity list \<Rightarrow> py_error + json dict" where
  "nic_json_to_dict nics_json = fold_err nic_step nics_json []"

text \<open>One round of the loop of \<open>disk_json_to_dict\<close>.\<close>

definition disk_step :: "entity \<Rightarrow> json dict \<Rightarrow> py_error + json dict" where
  "disk_step disk disk_dict =
     (case getitem (ent_attrs disk) ''sequence'' of Inl e \<Rightarrow> Inl e
      | Inr s \<Rightarrow>
     (case format_d s of Inl e \<Rightarrow> Inl e
      | Inr n \<Rightarrow>
        let disk_rel = ''disk'' @ n;
            d = flatten_attrs disk_rel (ent_attrs disk) disk_dict;
            tierlink = filter (\<lambda>x. contains ''tier'' (link_rel x)) (ent_links disk)
        in if length tierlink > 0
           then (case get_title (tierlink ! 0) of Inl e \<Rightarrow> Inl e
                 | Inr t \<Rightarrow> Inr (AList.update (disk_rel @ ''_tier'') (JStr t) d))
           else Inr d))"

definition disk_json_to_dict :: "entity list \<Rightarrow> py_error + json dict" where
  "disk_json_to_dict disks_json = fold_err disk_step disks_json []"

text \<open>
  The VM's JSON object as \<open>vars_from_json\<close> receives it: the entries \<open>links\<close>,
  \<open>nics\<close> and \<open>disks\<close>, and the remaining top-level entries.
\<close>

record vm_json =
  vm_links :: "link list"
  vm_nics :: "entity list"
  vm_disks :: "entity list"
  vm_attrs :: "json dict"

definition link_rels :: "string list" where
  "link_rels = [''category'', ''virtualmachinetemplate'', ''hypervisortype'', ''ip'',
     ''location'', ''hardwareprofile'', ''state'', ''network_configuration'',
     ''virtualappliance'', ''virtualdatacenter'', ''user'', ''enterprise'']"

text \<open>One round of the loop over \<open>link_rels\<close>.\<close>

definition link_step :: "link list \<Rightarrow> string \<Rightarrow> json dict \<Rightarrow> py_error + json dict" where
  "link_step links_of_vm r link_dict =
     (let links = filter (\<lambda>y. link_rel y = r) links_of_vm
      in if length links > 0
         then (let l = links ! 0; k = link_rel l
               in case get_title l of Inl e \<Rightarrow> Inl e
                  | Inr v \<Rightarrow> Inr (AList.update k (JStr v) link_dict))
         else Inr link_dict)"

text \<open>
  The mapping \<open>d\<close> before the renaming: flattened interface and disk fields, then the
  titles of the allow-listed links, then the remaining attributes; a later entry wins.
\<close>

definition merge_vars :: "vm_json \<Rightarrow> py_error + json dict" where
  "merge_vars vm =
     (case nic_json_to_dict (vm_nics vm) of Inl e \<Rightarrow> Inl e
      | Inr nics_dict \<Rightarrow>
     (case disk_json_to_dict (vm_disks vm) of Inl e \<Rightarrow> Inl e
      | Inr disks_dict \<Rightarrow>
        let host_vars = dict_of (nics_dict @ disks_dict)
        in (case fold_err (link_step (vm_links vm)) link_rels [] of Inl e \<Rightarrow> Inl e
            | Inr link_dict \<Rightarrow>
              let attrs_dict = vm_attrs vm
              in Inr (dict_of (host_vars @ link_dict @ attrs_dict)))))"

text \<open>
  The renaming loop, \<open>for i in d: if not i.startswith('abq'): d['abq_%s' % i] = d.pop(i)\<close>.
  The loop rewrites the dict it iterates over. Which keys the iterator of Python 2 then
  yields depends on the interpreter's hash table (the slot of each key, the slots that
  \<open>pop\<close> frees and the store fills, a resize of the table by the store), which the
  embedding does not have: a key can be yielded again, and a key can be missed. So the
  sequence of keys that the iterator yields is an input of the loop, \<open>yielded\<close>. What the
  iterator checks is modelled: before it yields the next key (or ends the loop) it compares
  the size of the dict with the size \<open>n\<close> at the start of the loop and raises
  \<open>RuntimeError\<close> when they differ; \<open>pop\<close> removes a key, and the store adds one unless
  \<open>'abq_' + i\<close> is a key already.
\<close>

definition rename_step :: "nat \<Rightarrow> string \<Rightarrow> json dict \<Rightarrow> py_error + json dict" where
  "rename_step n i d =
     (if \<not> startswith i ''abq''
      then (case getitem d i of Inl e \<Rightarrow> Inl e
            | Inr v \<Rightarrow>
                let d' = AList.update (''abq_'' @ i) v (AList.delete i d)
                in if length d' \<noteq> n then Inl RuntimeError else Inr d')
      else Inr d)"

definition rename_keys :: "string list \<Rightarrow> json dict \<Rightarrow> py_error + json dict" where
  "rename_keys yielded d = fold_err (rename_step (length d)) yielded d"

definition vars_from_json :: "string list \<Rightarrow> vm_json \<Rightarrow> py_error + json dict" where
  "vars_from_json yielded vm =
     (case merge_vars vm of Inl e \<Rightarrow> Inl e | Inr d \<Rightarrow> rename_keys yielded d)"

section \<open>Upstream API and enrichment\<close>

text \<open>
  The answer of a \<open>follow(rel).get()\<close> of the client library: the call raises, or it
  returns a status code and a payload.
\<close>

datatype 'a fetch = Raises py_error | Response int 'a

text \<open>What the script writes to the error stream: \<open>str(e)\<close> or a traceback.\<close>

datatype err_text = ErrStr py_error | Traceback py_error

text \<open>
  How a call ends: with a value, with an exception of class \<open>Exception\<close>, or with
  \<open>SystemExit\<close> (which \<open>except Exception\<close> does not catch) after some text was
  written to the error stream.
\<close>

datatype 'a result = Ok 'a | Raise py_error | Exit "err_text list" int

text \<open>
  \<open>check_response(expected, code, obj)\<close> of the client library raises when the status
  code is not the expected one.
\<close>

definition check_response :: "int \<Rightarrow> int \<Rightarrow> py_error + unit" where
  "check_response expected code = (if code \<noteq> expected then Inl (ApiError code) else Inr ())"

text \<open>\<open>self.fail_with_error(e)\<close>: two writes to the error stream, then \<open>sys.exit(1)\<close>.\<close>

definition fail_with_error :: "py_error \<Rightarrow> 'a result" where
  "fail_with_error e = Exit [ErrStr e, Traceback e] 1"

text \<open>
  A VM as the API returns it: its links (\<open>vm.links\<close>, that is \<open>vm.json['links']\<close>), the
  other entries of \<open>vm.json\<close>, and what \<open>get()\<close> answers on each of the five relations
  that the enrichment follows. \<open>iter_keys\<close> is the sequence of keys that the dict iterator
  yields in the renaming loop of \<open>vars_from_json\<close> for this VM.
\<close>

record vm =
  json_links :: "link list"
  json_attrs :: "json dict"
  nics_get :: "entity list fetch"
  harddisks_get :: "entity list fetch"
  volumes_get :: "entity list fetch"
  template_get :: "json fetch"
  metadata_get :: "json fetch"
  iter_keys :: "string list"

text \<open>
  \<open>vm.follow(rel).get()\<close> of the client library: the request goes to the address of the
  link of the VM with that relation; without such a link there is nothing to follow and the
  call raises.
\<close>

definition follow :: "vm \<Rightarrow> string \<Rightarrow> 'a fetch \<Rightarrow> 'a fetch" where
  "follow v r answer =
     (if filter (\<lambda>l. link_rel l = r) (json_links v) = [] then Raises (KeyError r) else answer)"

text \<open>
  \<open>get_vm_template\<close>, \<open>get_vm_nics\<close>, \<open>get_vm_disks\<close> and \<open>get_vm_volumes\<close> call
  \<open>fail_with_error(e)\<close> without \<open>self.\<close>: the name is not defined at module level, so
  the handler raises \<open>NameError\<close>.
\<close>

definition unqualified_fail :: "'a fetch \<Rightarrow> 'a result" where
  "unqualified_fail f =
     (case f of Raises e \<Rightarrow> Raise e
      | Response code x \<Rightarrow>
          (case check_response 200 code of
             Inl e \<Rightarrow> Raise (NameError ''fail_with_error'')
           | Inr _ \<Rightarrow> Ok x))"

definition get_vm_template :: "vm \<Rightarrow> json result" where
  "get_vm_template v = unqualified_fail (follow v ''virtualmachinetemplate'' (template_get v))"

definition get_vm_nics :: "vm \<Rightarrow> entity list result" where
  "get_vm_nics v = unqualified_fail (follow v ''nics'' (nics_get v))"

definition get_vm_disks :: "vm \<Rightarrow> entity list result" where
  "get_vm_disks v = unqualified_fail (follow v ''harddisks'' (harddisks_get v))"

definition get_vm_volumes :: "vm \<Rightarrow> entity list result" where
  "get_vm_volumes v = unqualified_fail (follow v ''volumes'' (volumes_get v))"

text \<open>
  \<open>update_vm_disks_and_nics\<close>: the three collections are fetched first; the volumes are
  appended to the list of hard disks.
\<close>

definition update_vm_disks_and_nics :: "vm \<Rightarrow> vm_json result" where
  "update_vm_disks_and_nics v =
     (case get_vm_nics v of Raise e \<Rightarrow> Raise e | Exit err c \<Rightarrow> Exit err c
      | Ok nics \<Rightarrow>
     (case get_vm_disks v of Raise e \<Rightarrow> Raise e | Exit err c \<Rightarrow> Exit err c
      | Ok disks \<Rightarrow>
     (case get_vm_volumes v of Raise e \<Rightarrow> Raise e | Exit err c \<Rightarrow> Exit err c
      | Ok vols \<Rightarrow>
         Ok \<lparr>vm_links = json_links v, vm_nics = nics, vm_disks = disks @ vols,
             vm_attrs = json_attrs v\<rparr>)))"

text \<open>\<open>del json['links']\<close> on the template's JSON.\<close>

fun del_links :: "json \<Rightarrow> py_error + json" where
  "del_links (JObj kvs) =
     (if ''links'' \<in> fst ` set kvs then Inr (JObj (AList.delete ''links'' kvs))
      else Inl (KeyError ''links''))"
| "del_links _ = Inl TypeError"

definition update_vm_template :: "vm \<Rightarrow> vm_json \<Rightarrow> vm_json result" where
  "update_vm_template v vj =
     (case get_vm_template v of Raise e \<Rightarrow> Raise e | Exit err c \<Rightarrow> Exit err c
      | Ok template \<Rightarrow>
         (case del_links template of Inl e \<Rightarrow> Raise e
          | Inr js \<Rightarrow> Ok (vj\<lparr>vm_attrs := AList.update ''template'' js (vm_attrs vj)\<rparr>)))"

text \<open>\<open>update_vm_metadata\<close> calls \<open>self.fail_with_error(e)\<close>.\<close>

definition update_vm_metadata :: "vm \<Rightarrow> vm_json \<Rightarrow> vm_json result" where
  "update_vm_metadata v vj =
     (case follow v ''metadata'' (metadata_get v) of Raises e \<Rightarrow> Raise e
      | Response code metadata \<Rightarrow>
          (case check_response 200 code of
             Inl e \<Rightarrow> fail_with_error e
           | Inr _ \<Rightarrow> Ok (vj\<lparr>vm_attrs := AList.update ''metadata'' metadata (vm_attrs vj)\<rparr>)))"

text \<open>The options of the configuration file that the script reads.\<close>

record config =
  get_metadata :: bool
  public_ip_only :: bool
  deployed_only :: bool
  default_net_interface :: string
  cache_dir :: "string option"
  cache_max_age :: "string option"

text \<open>Lines 309 to 312 of the loop body: the enrichment of one VM.\<close>

definition enrich :: "config \<Rightarrow> vm \<Rightarrow> vm_json result" where
  "enrich cfg v =
     (case update_vm_disks_and_nics v of Raise e \<Rightarrow> Raise e | Exit err c \<Rightarrow> Exit err c
      | Ok vj1 \<Rightarrow>
     (case update_vm_template v vj1 of Raise e \<Rightarrow> Raise e | Exit err c \<Rightarrow> Exit err c
      | Ok vj2 \<Rightarrow>
         if get_metadata cfg then update_vm_metadata v vj2 else Ok vj2))"

section \<open>Inventory builder\<close>

text \<open>
  The inventory document: the mapping under \<open>_meta.hostvars\<close> and the group lists. The
  group names all begin with \<open>template_\<close>, \<open>vapp_\<close>, \<open>vdc_\<close>, \<open>hwprof_\<close> or
  \<open>var_\<close>, so none of them is the key \<open>_meta\<close>.
\<close>

record inventory =
  hostvars :: "(json dict) dict"
  groups :: "(string list) dict"

definition empty_inventory :: inventory where
  "empty_inventory = \<lparr>hostvars = [], groups = []\<rparr>"

text \<open>
  The local variable \<open>vm_nic\<close>: not bound yet, \<open>None\<close>, or a link title. The locals
  \<open>vm_vapp\<close>, \<open>vm_vdc\<close> and \<open>vm_template\<close> are not bound (\<open>None\<close> here) until a link
  assigns them. None of the four is reset at the start of a round of the loop.
\<close>

datatype nicvar = Unbound | PyNone | Title string

record locals =
  vm_vapp :: "string option"
  vm_vdc :: "string option"
  vm_template :: "string option"
  vm_nic :: nicvar

definition unbound_locals :: locals where
  "unbound_locals = \<lparr>vm_vapp = None, vm_vdc = None, vm_template = None, vm_nic = Unbound\<rparr>"

text \<open>One round of the loop of lines 317 to 325; the state is the locals and \<open>hw_profile\<close>.\<close>

definition name_step :: "link \<Rightarrow> locals \<times> string \<Rightarrow> py_error + locals \<times> string" where
  "name_step l s =
     (if link_rel l = ''virtualappliance''
      then (case get_title l of Inl e \<Rightarrow> Inl e
            | Inr t \<Rightarrow> Inr ((fst s)\<lparr>vm_vapp := Some (sanitize t)\<rparr>, snd s))
      else if link_rel l = ''virtualdatacenter''
      then (case get_title l of Inl e \<Rightarrow> Inl e
            | Inr t \<Rightarrow> Inr ((fst s)\<lparr>vm_vdc := Some (sanitize t)\<rparr>, snd s))
      else if link_rel l = ''virtualmachinetemplate''
      then (case get_title l of Inl e \<Rightarrow> Inl e
            | Inr t \<Rightarrow> Inr ((fst s)\<lparr>vm_template := Some (sanitize t)\<rparr>, snd s))
      else if link_rel l = ''hardwareprofile''
      then (case get_title l of Inl e \<Rightarrow> Inl e
            | Inr t \<Rightarrow> Inr (fst s, sanitize t))
      else Inr s)"

text \<open>
  The two selection loops of lines 328 to 342. A link that matches binds \<open>vm_nic\<close> to its
  title and ends the loop; a link that does not match sets \<open>vm_nic\<close> to \<open>None\<close>; with no
  link at all \<open>vm_nic\<close> keeps the value it had.
\<close>

fun select_public :: "link list \<Rightarrow> nicvar \<Rightarrow> py_error + nicvar" where
  "select_public [] n = Inr n"
| "select_public (l # ls) n =
     (case get_type l of Inl e \<Rightarrow> Inl e
      | Inr ty \<Rightarrow>
          if ty = ''application/vnd.abiquo.publicip+json'' \<and> link_rel l = ''ip''
          then (case get_title l of Inl e \<Rightarrow> Inl e | Inr t \<Rightarrow> Inr (Title t))
          else select_public ls PyNone)"

fun select_default :: "string \<Rightarrow> link list \<Rightarrow> nicvar \<Rightarrow> py_error + nicvar" where
  "select_default r [] n = Inr n"
| "select_default r (l # ls) n =
     (if link_rel l = r
      then (case get_title l of Inl e \<Rightarrow> Inl e | Inr t \<Rightarrow> Inr (Title t))
      else select_default r ls PyNone)"

text \<open>\<open>if g not in inventory: inventory[g] = []\<close>, then \<open>inventory[g].append(h)\<close>.\<close>

definition append_group :: "string \<Rightarrow> string \<Rightarrow> inventory \<Rightarrow> inventory" where
  "append_group g h iv =
     (case map_of (groups iv) g of
        None \<Rightarrow> iv\<lparr>groups := AList.update g [h] (groups iv)\<rparr>
      | Some ids \<Rightarrow> iv\<lparr>groups := AList.update g (ids @ [h]) (groups iv)\<rparr>)"

text \<open>One round of the loop over the custom variables, lines 393 to 399.\<close>

definition var_step :: "json dict \<Rightarrow> string \<Rightarrow> string \<Rightarrow> inventory \<Rightarrow> py_error + inventory" where
  "var_step variables h var iv =
     (let var_sane = sanitize var
      in case getitem variables var of Inl e \<Rightarrow> Inl e
         | Inr (JStr val) \<Rightarrow>
             Inr (append_group (''var_'' @ var_sane @ ''_'' @ sanitize val) h iv)
         | Inr _ \<Rightarrow> Inl AttributeError)"

text \<open>
  \<open>for var in vm.json['variables']\<close>: an object yields its keys; a non-empty list or string
  fails at the first element (\<open>replace\<close> on a non-string, or indexing with a string); the
  other values cannot be iterated.
\<close>

fun group_variables :: "json \<Rightarrow> string \<Rightarrow> inventory \<Rightarrow> py_error + inventory" where
  "group_variables (JObj kvs) h iv = fold_err (var_step kvs h) (map fst kvs) iv"
| "group_variables (JArr []) h iv = Inr iv"
| "group_variables (JArr (JStr s # xs)) h iv = Inl TypeError"
| "group_variables (JArr (x # xs)) h iv = Inl AttributeError"
| "group_variables (JStr []) h iv = Inr iv"
| "group_variables (JStr (c # cs)) h iv = Inl TypeError"
| "group_variables _ h iv = Inl TypeError"

text \<open>Lines 356 to 399: the host variables, then the groups, for the identifier \<open>h\<close>.\<close>

definition add_host ::
  "string \<Rightarrow> json dict \<Rightarrow> locals \<Rightarrow> string \<Rightarrow> json dict \<Rightarrow> inventory \<Rightarrow> py_error + inventory" where
  "add_host h host_vars lo hw_profile attrs inv0 =
     (let inv1 = inv0\<lparr>hostvars := AList.update h host_vars (hostvars inv0)\<rparr>
      in case vm_template lo of None \<Rightarrow> Inl (NameError ''vm_template'')
         | Some tmpl \<Rightarrow>
      let inv2 = append_group (''template_'' @ tmpl) h inv1
      in case vm_vapp lo of None \<Rightarrow> Inl (NameError ''vm_vapp'')
         | Some vapp \<Rightarrow>
      let inv3 = append_group (''vapp_'' @ vapp) h inv2
      in case vm_vdc lo of None \<Rightarrow> Inl (NameError ''vm_vdc'')
         | Some vdc \<Rightarrow>
      let inv4 = append_group (''vdc_'' @ vdc) h inv3;
          inv5 = append_group (''vdc_'' @ vdc @ ''_vapp_'' @ vapp) h inv4;
          inv6 = (if hw_profile \<noteq> [] then append_group (''hwprof_'' @ hw_profile) h inv5
                  else inv5)
      in case map_of attrs ''variables'' of None \<Rightarrow> Inr inv6
         | Some vars \<Rightarrow> group_variables vars h inv6)"

text \<open>
  \<open>config.getboolean('defaults', 'deployed_only') is True and vm.state == 'NOT_ALLOCATED'\<close>:
  the state is read only when the option is set; the result is \<open>vm_state\<close>.
\<close>

definition vm_state :: "config \<Rightarrow> json dict \<Rightarrow> py_error + bool" where
  "vm_state cfg attrs =
     (if deployed_only cfg
      then (case getitem attrs ''state'' of Inl e \<Rightarrow> Inl e
            | Inr s \<Rightarrow> Inr (s \<noteq> JStr ''NOT_ALLOCATED''))
      else Inr True)"

text \<open>The body of the loop over the VMs, lines 309 to 399.\<close>

definition process_vm :: "config \<Rightarrow> vm \<Rightarrow> locals \<times> inventory \<Rightarrow> (locals \<times> inventory) result" where
  "process_vm cfg v st =
     (case enrich cfg v of Raise e \<Rightarrow> Raise e | Exit err c \<Rightarrow> Exit err c
      | Ok vj \<Rightarrow>
     (case vars_from_json (iter_keys v) vj of Inl e \<Rightarrow> Raise e
      | Inr host_vars \<Rightarrow>
     (case fold_err name_step (json_links v) (fst st, []) of Inl e \<Rightarrow> Raise e
      | Inr (lo1, hw_profile) \<Rightarrow>
     (case (if public_ip_only cfg then select_public (json_links v) (vm_nic lo1)
            else select_default (default_net_interface cfg) (json_links v) (vm_nic lo1)) of
        Inl e \<Rightarrow> Raise e
      | Inr n \<Rightarrow>
          let lo2 = lo1\<lparr>vm_nic := n\<rparr>
          in (case n of
                Unbound \<Rightarrow> Raise (NameError ''vm_nic'')
              | PyNone \<Rightarrow> Ok (lo2, snd st)
              | Title h \<Rightarrow>
                  (case vm_state cfg (vm_attrs vj) of Inl e \<Rightarrow> Raise e
                   | Inr alive \<Rightarrow>
                       if \<not> alive then Ok (lo2, snd st)
                       else (case add_host h host_vars lo2 hw_profile (vm_attrs vj) (snd st) of
                               Inl e \<Rightarrow> Raise e
                             | Inr iv \<Rightarrow> Ok (lo2, iv))))))))"

fun vm_loop :: "config \<Rightarrow> vm list \<Rightarrow> locals \<times> inventory \<Rightarrow> (locals \<times> inventory) result" where
  "vm_loop cfg [] st = Ok st"
| "vm_loop cfg (v # vs) st =
     (case process_vm cfg v st of Raise e \<Rightarrow> Raise e | Exit err c \<Rightarrow> Exit err c
      | Ok st' \<Rightarrow> vm_loop cfg vs st')"

text \<open>\<open>get_vms\<close> calls \<open>self.fail_with_error(e)\<close>.\<close>

definition get_vms :: "vm list fetch \<Rightarrow> vm list result" where
  "get_vms answer =
     (case answer of Raises e \<Rightarrow> Raise e
      | Response code vms \<Rightarrow>
          (case check_response 200 code of Inl e \<Rightarrow> fail_with_error e | Inr _ \<Rightarrow> Ok vms))"

text \<open>
  \<open>generate_inv_from_api\<close>: \<open>inventory\<close> is \<open>self.inventory\<close>, \<open>answer\<close> is what the API
  answers to the request for the VMs. The result is the text written to the error stream
  and the document returned, or the exit of the process.
\<close>

definition generate_inv_from_api ::
  "config \<Rightarrow> inventory \<Rightarrow> vm list fetch \<Rightarrow> (err_text list \<times> inventory) result" where
  "generate_inv_from_api cfg inventory answer =
     (case (case get_vms answer of Raise e \<Rightarrow> Raise e | Exit err c \<Rightarrow> Exit err c
            | Ok vms \<Rightarrow> vm_loop cfg vms (unbound_locals, inventory)) of
        Ok st \<Rightarrow> Ok ([], snd st)
      | Raise e \<Rightarrow> Ok ([Traceback e], empty_inventory)
      | Exit err c \<Rightarrow> Exit err c)"

section \<open>Cache store and main execution path\<close>

text \<open>
  What the script sees of its surroundings: the flag \<open>--refresh-cache\<close>, the clock
  (\<open>int(time.time())\<close>), \<open>os.stat\<close> (the modification time as \<open>int(st_mtime)\<close>, or
  \<open>None\<close> when it raises), the cache file as \<open>open\<close>, \<open>read\<close> and \<open>json.loads\<close> find
  it, and whether a file can be opened for writing.
\<close>

datatype file_content = Unreadable | NotJson | Json json

record env =
  refresh_cache :: bool
  time_now :: int
  os_stat :: "string \<Rightarrow> int option"
  read_file :: "string \<Rightarrow> file_content"
  writable :: "string \<Rightarrow> bool"

text \<open>\<open>'/'.join([dpath, 'abiquo-inventory'])\<close>.\<close>

definition cache_path :: "string \<Rightarrow> string" where
  "cache_path dpath = dpath @ ''/'' @ ''abiquo-inventory''"

text \<open>
  \<open>cache_available\<close>. \<open>to_int\<close> is the builtin \<open>int\<close> on the string of the option
  \<open>cache_max_age\<close>: the integer, or \<open>None\<close> when \<open>int\<close> raises \<open>ValueError\<close>.
\<close>

definition cache_available ::
  "(string \<Rightarrow> int option) \<Rightarrow> config \<Rightarrow> env \<Rightarrow> py_error + bool" where
  "cache_available to_int cfg ev =
     (case cache_dir cfg of
        None \<Rightarrow> Inr False
      | Some dpath \<Rightarrow>
          (case os_stat ev (cache_path dpath) of
             None \<Rightarrow> Inr False
           | Some mtime \<Rightarrow>
               (case cache_max_age cfg of
                  None \<Rightarrow> Inr False
                | Some maxage \<Rightarrow>
                    (case to_int maxage of
                       None \<Rightarrow> Inl ValueError
                     | Some m \<Rightarrow>
                         if time_now ev - mtime \<le> m then Inr True else Inr False))))"

text \<open>
  \<open>get_cache\<close>: \<open>config.get\<close> raises when the option is missing; an \<open>IOError\<close> of
  \<open>open\<close> or \<open>read\<close> is swallowed and leaves \<open>inv = {}\<close>; the \<open>ValueError\<close> of
  \<open>json.loads\<close> is not caught.
\<close>

definition get_cache :: "config \<Rightarrow> env \<Rightarrow> py_error + json" where
  "get_cache cfg ev =
     (case cache_dir cfg of
        None \<Rightarrow> Inl (NoOptionError ''cache_dir'')
      | Some dpath \<Rightarrow>
          (case read_file ev (cache_path dpath) of
             Unreadable \<Rightarrow> Inr (JObj [])
           | NotJson \<Rightarrow> Inl ValueError
           | Json j \<Rightarrow> Inr j))"

text \<open>
  \<open>save_cache\<close>: the document written to the cache file, or \<open>None\<close> when the
  \<open>IOError\<close> of \<open>open\<close> is swallowed.
\<close>

definition save_cache :: "config \<Rightarrow> env \<Rightarrow> json \<Rightarrow> py_error + json option" where
  "save_cache cfg ev data =
     (case cache_dir cfg of
        None \<Rightarrow> Inl (NoOptionError ''cache_dir'')
      | Some dpath \<Rightarrow> Inr (if writable ev (cache_path dpath) then Some data else None))"

text \<open>The inventory as the JSON object that \<open>json.dumps\<close> writes.\<close>

definition inventory_json :: "inventory \<Rightarrow> json" where
  "inventory_json iv =
     JObj ((''_meta'', JObj [(''hostvars'', JObj (map (\<lambda>(h, vs). (h, JObj vs)) (hostvars iv)))])
           # map (\<lambda>(g, ids). (g, JArr (map JStr ids))) (groups iv))"

text \<open>
  What a run leaves: the document on standard output (if any), the text on the error
  stream, the exit code, and the document written to the cache file (if any). An uncaught
  exception ends the run with its traceback and exit code 1.
\<close>

record outcome =
  stdout_doc :: "json option"
  stderr_text :: "err_text list"
  exit_code :: int
  cache_written :: "json option"

text \<open>Lines 78 to 83 of \<open>__init__\<close>: the choice between the API and the cache.\<close>

definition choose_inv ::
  "(string \<Rightarrow> int option) \<Rightarrow> config \<Rightarrow> env \<Rightarrow> vm list fetch \<Rightarrow> (err_text list \<times> json) result" where
  "choose_inv to_int cfg ev answer =
     (let from_api =
            (case generate_inv_from_api cfg empty_inventory answer of
               Ok r \<Rightarrow> Ok (fst r, inventory_json (snd r))
             | Raise e \<Rightarrow> Raise e
             | Exit err c \<Rightarrow> Exit err c)
      in if refresh_cache ev then from_api
         else (case cache_available to_int cfg ev of
                 Inl e \<Rightarrow> Raise e
               | Inr fresh \<Rightarrow>
                   if \<not> fresh then from_api
                   else (case get_cache cfg ev of Inl e \<Rightarrow> Raise e | Inr j \<Rightarrow> Ok ([], j))))"

text \<open>\<open>AbiquoInventory.__init__\<close>, from line 78 on.\<close>

definition main ::
  "(string \<Rightarrow> int option) \<Rightarrow> config \<Rightarrow> env \<Rightarrow> vm list fetch \<Rightarrow> outcome" where
  "main to_int cfg ev answer =
     (case choose_inv to_int cfg ev answer of
        Exit err c \<Rightarrow>
          \<lparr>stdout_doc = None, stderr_text = err, exit_code = c, cache_written = None\<rparr>
      | Raise e \<Rightarrow>
          \<lparr>stdout_doc = None, stderr_text = [Traceback e], exit_code = 1, cache_written = None\<rparr>
      | Ok r \<Rightarrow>
          (case save_cache cfg ev (snd r) of
             Inl e \<Rightarrow>
               \<lparr>stdout_doc = None, stderr_text = fst r @ [Traceback e], exit_code = 1,
                cache_written = None\<rparr>
           | Inr w \<Rightarrow>
               \<lparr>stdout_doc = Some (snd r), stderr_text = fst r, exit_code = 0,
                cache_written = w\<rparr>))"

section \<open>Notions used in the properties\<close>

text \<open>
  The fields of one network interface in the words of the specification, for an interface
  whose sequence number is \<open>i\<close>: the prefix \<open>nic<sequence>\<close>, one field
  \<open><prefix>_<attribute>\<close> per attribute other than \<open>links\<close>, and
  \<open><prefix>_net_type\<close> with the relation of the first link whose relation contains
  \<open>network\<close>, when there is one.
\<close>

definition spec_nic_fields :: "int \<Rightarrow> entity \<Rightarrow> (string \<times> json) list" where
  "spec_nic_fields i nic =
     (let prefix = ''nic'' @ show_int i
      in concat (map (\<lambda>(a, v). if a \<noteq> ''links'' then [(prefix @ ''_'' @ a, v)] else [])
                     (ent_attrs nic))
         @ (case find (\<lambda>l. contains ''network'' (link_rel l)) (ent_links nic) of
              None \<Rightarrow> []
            | Some l \<Rightarrow> [(prefix @ ''_net_type'', JStr (link_rel l))]))"

text \<open>The entries that \<open>flatten_attrs\<close> stores, in order.\<close>

definition flat :: "string \<Rightarrow> json dict \<Rightarrow> (string \<times> json) list" where
  "flat p x = concat (map (\<lambda>(a, v). if a \<noteq> ''links'' then [(p @ ''_'' @ a, v)] else []) x)"

text \<open>
  The formatted sequence number of an interface or disk, \<open>"%d" % x['sequence']\<close>, when
  the entry is there and can be formatted.
\<close>

definition seq_text :: "entity \<Rightarrow> string option" where
  "seq_text x =
     (case getitem (ent_attrs x) ''sequence'' of Inl e \<Rightarrow> None
      | Inr s \<Rightarrow> (case format_d s of Inl e \<Rightarrow> None | Inr n \<Rightarrow> Some n))"

text \<open>The test of the selection loops on one link, lines 330 and 338.\<close>

definition qualifies :: "config \<Rightarrow> link \<Rightarrow> bool" where
  "qualifies cfg l =
     (if public_ip_only cfg
      then link_type l = Some ''application/vnd.abiquo.publicip+json'' \<and> link_rel l = ''ip''
      else link_rel l = default_net_interface cfg)"

text \<open>Every host named in a group list is a key of \<open>_meta.hostvars\<close>.\<close>

definition hosts_have_vars :: "inventory \<Rightarrow> bool" where
  "hosts_have_vars iv =
     (\<forall>p \<in> set (groups iv). \<forall>h \<in> set (snd p). h \<in> fst ` set (hostvars iv))"

text \<open>The host \<open>h\<close> has variables and every host of a group has variables.\<close>

definition keeps :: "string \<Rightarrow> inventory \<Rightarrow> bool" where
  "keeps h iv = (hosts_have_vars iv \<and> h \<in> fst ` set (hostvars iv))"

text \<open>The host \<open>h\<close> is in the list of the group \<open>g\<close>.\<close>

definition in_group :: "string \<Rightarrow> string \<Rightarrow> inventory \<Rightarrow> bool" where
  "in_group g h iv = (case map_of (groups iv) g of None \<Rightarrow> False | Some ids \<Rightarrow> h \<in> set ids)"

section \<open>Example inputs\<close>

definition lnk :: "string \<Rightarrow> string \<Rightarrow> string \<Rightarrow> link" where
  "lnk r t ty = \<lparr>link_rel = r, link_title = Some t, link_type = Some ty\<rparr>"

text \<open>The links that the enrichment follows.\<close>

definition ex_follow_links :: "link list" where
  "ex_follow_links =
     [lnk ''nics'' ''nics'' ''application/vnd.abiquo.nics+json'',
      lnk ''harddisks'' ''harddisks'' ''application/vnd.abiquo.harddisks+json'',
      lnk ''volumes'' ''volumes'' ''application/vnd.abiquo.volumes+json'',
      lnk ''virtualmachinetemplate'' ''Ubuntu 20.04''
          ''application/vnd.abiquo.virtualmachinetemplate+json'',
      lnk ''virtualappliance'' ''Web Tier'' ''application/vnd.abiquo.virtualappliance+json'',
      lnk ''virtualdatacenter'' ''DC1'' ''application/vnd.abiquo.virtualdatacenter+json'']"

text \<open>A deployed VM with a public IP address, and the same VM without the address.\<close>

definition ex_vm :: vm where
  "ex_vm =
     \<lparr>json_links = ex_follow_links
        @ [lnk ''ip'' ''10.0.0.5'' ''application/vnd.abiquo.publicip+json''],
      json_attrs = [(''state'', JStr ''ON'')],
      nics_get = Response 200 [], harddisks_get = Response 200 [],
      volumes_get = Response 200 [],
      template_get = Response 200 (JObj [(''name'', JStr ''ubuntu''), (''links'', JArr [])]),
      metadata_get = Response 200 (JObj []),
      iter_keys = [''virtualdatacenter'', ''ip'', ''state'', ''virtualmachinetemplate'',
        ''virtualappliance'', ''abq_virtualdatacenter'', ''template'', ''abq_virtualappliance'',
        ''abq_state'', ''abq_template'']\<rparr>"

definition ex_vm_no_ip :: vm where
  "ex_vm_no_ip =
     ex_vm\<lparr>json_links := ex_follow_links,
           iter_keys := [''virtualmachinetemplate'', ''virtualdatacenter'', ''state'',
             ''abq_state'', ''virtualappliance'', ''abq_virtualdatacenter'', ''template'',
             ''abq_virtualappliance'', ''abq_virtualmachinetemplate'', ''abq_template'']\<rparr>"

text \<open>The same VM when the API answers the request for its interfaces with status 500.\<close>

definition ex_vm_nics_500 :: vm where
  "ex_vm_nics_500 = ex_vm\<lparr>nics_get := Response 500 []\<rparr>"

definition ex_config :: config where
  "ex_config =
     \<lparr>get_metadata = False, public_ip_only = True, deployed_only = True,
      default_net_interface = ''nic0'', cache_dir = Some ''/tmp'',
      cache_max_age = Some ''300''\<rparr>"

text \<open>The inventory and the locals after the round of the loop for \<open>ex_vm\<close>.\<close>

definition ex_inventory :: inventory where
  "ex_inventory =
     \<lparr>hostvars =
        [(''10.0.0.5'',
          [(''abq_virtualdatacenter'', JStr ''DC1''),
           (''abq_ip'', JStr ''10.0.0.5''),
           (''abq_state'', JStr ''ON''),
           (''abq_virtualmachinetemplate'', JStr ''Ubuntu 20.04''),
           (''abq_virtualappliance'', JStr ''Web Tier''),
           (''abq_template'', JObj [(''name'', JStr ''ubuntu'')])])],
      groups =
        [(''template_Ubuntu_20.04'', [''10.0.0.5'']),
         (''vapp_Web_Tier'', [''10.0.0.5'']),
         (''vdc_DC1'', [''10.0.0.5'']),
         (''vdc_DC1_vapp_Web_Tier'', [''10.0.0.5''])]\<rparr>"

definition ex_locals :: locals where
  "ex_locals =
     \<lparr>vm_vapp = Some ''Web_Tier'', vm_vdc = Some ''DC1'',
      vm_template = Some ''Ubuntu_20.04'', vm_nic = Title ''10.0.0.5''\<rparr>"

text \<open>
  The VM of \<open>ex_vm\<close> when the API answers one of the other sub-fetches with status 500,
  and a VM with a \<open>metadata\<close> link whose metadata request is answered with status 404.
\<close>

definition ex_vm_disks_500 :: vm where
  "ex_vm_disks_500 = ex_vm\<lparr>harddisks_get := Response 500 []\<rparr>"

definition ex_vm_volumes_500 :: vm where
  "ex_vm_volumes_500 = ex_vm\<lparr>volumes_get := Response 500 []\<rparr>"

definition ex_vm_template_500 :: vm where
  "ex_vm_template_500 = ex_vm\<lparr>template_get := Response 500 JNull\<rparr>"

definition ex_vm_metadata_404 :: vm where
  "ex_vm_metadata_404 =
     ex_vm\<lparr>json_links := json_links ex_vm
                @ [lnk ''metadata'' ''metadata'' ''application/vnd.abiquo.metadata+json''],
           metadata_get := Response 404 JNull\<rparr>"

text \<open>
  Two VM records for \<open>vars_from_json\<close>, without links, interfaces or disks: one with the
  attributes \<open>id\<close>, \<open>name\<close>, \<open>cpu\<close> and \<open>uuid\<close>, one with the attributes \<open>name\<close>
  and \<open>abq_name\<close>. For the first, the iterator of CPython 2.7 (64-bit build) yields the
  keys of \<open>ex_attrs4_yielded\<close>: the second store resizes the table from 8 to 32 slots,
  \<open>abq_id\<close> is yielded again and \<open>name\<close> is never yielded.
\<close>

definition ex_attrs4 :: vm_json where
  "ex_attrs4 =
     \<lparr>vm_links = [], vm_nics = [], vm_disks = [],
      vm_attrs = [(''id'', JNum 7), (''name'', JStr ''vm7''), (''cpu'', JNum 2),
                  (''uuid'', JStr ''u-7'')]\<rparr>"

definition ex_attrs4_yielded :: "string list" where
  "ex_attrs4_yielded = [''id'', ''abq_id'', ''cpu'', ''abq_id'', ''abq_cpu'', ''uuid'']"

definition ex_collision :: vm_json where
  "ex_collision =
     \<lparr>vm_links = [], vm_nics = [], vm_disks = [],
      vm_attrs = [(''name'', JStr ''vm7''), (''abq_name'', JStr ''old'')]\<rparr>"

text \<open>Two interfaces; the first has two links whose relation contains \<open>network\<close>.\<close>

definition ex_nics :: "entity list" where
  "ex_nics =
     [\<lparr>ent_attrs = [(''sequence'', JNum 0), (''ip'', JStr ''10.0.0.1'')],
       ent_links = [\<lparr>link_rel = ''edit'', link_title = None, link_type = None\<rparr>,
                    \<lparr>link_rel = ''privatenetwork'', link_title = None, link_type = None\<rparr>,
                    \<lparr>link_rel = ''externalnetwork'', link_title = None, link_type = None\<rparr>]\<rparr>,
      \<lparr>ent_attrs = [(''mac'', JStr ''aa:bb''), (''sequence'', JNum 1)],
       ent_links = [\<lparr>link_rel = ''edit'', link_title = None, link_type = None\<rparr>]\<rparr>]"

text \<open>A run with a fresh cache file that cannot be read.\<close>

definition ex_to_int :: "string \<Rightarrow> int option" where
  "ex_to_int s = (if s = ''300'' then Some 300 else None)"

definition ex_env :: env where
  "ex_env =
     \<lparr>refresh_cache = False, time_now = 1000,
      os_stat = (\<lambda>p. if p = ''/tmp/abiquo-inventory'' then Some 900 else None),
      read_file = (\<lambda>p. Unreadable), writable = (\<lambda>p. True)\<rparr>"

text \<open>
  A VM with a hard disk and two volumes; the hard disk and the first volume have the
  sequence number 0; \<open>iter_keys\<close> are the keys that the iterator of the renaming loop
  yields for it. Then the VM after the enrichment and the mapping of its host variables
  before the renaming loop.
\<close>

definition ex_hard_disk :: entity where
  "ex_hard_disk = \<lparr>ent_attrs = [(''sequence'', JNum 0), (''sizeInMb'', JNum 10)], ent_links = []\<rparr>"

definition ex_volume0 :: entity where
  "ex_volume0 = \<lparr>ent_attrs = [(''sequence'', JNum 0), (''sizeInMb'', JNum 20)], ent_links = []\<rparr>"

definition ex_volume1 :: entity where
  "ex_volume1 = \<lparr>ent_attrs = [(''sequence'', JNum 1), (''sizeInMb'', JNum 30)], ent_links = []\<rparr>"

definition ex_vm_disks :: vm where
  "ex_vm_disks =
     ex_vm\<lparr>harddisks_get := Response 200 [ex_hard_disk],
           volumes_get := Response 200 [ex_volume0, ex_volume1],
           iter_keys := [''virtualdatacenter'', ''ip'', ''disk1_sequence'', ''state'',
                         ''virtualmachinetemplate'', ''virtualappliance'',
                         ''abq_virtualdatacenter'', ''template'', ''disk0_sizeInMb'',
                         ''abq_disk0_sizeInMb'', ''disk0_sequence'', ''disk1_sizeInMb'',
                         ''abq_disk1_sequence'', ''abq_state'', ''abq_template'']\<rparr>"

definition ex_disks_json :: vm_json where
  "ex_disks_json =
     \<lparr>vm_links = json_links ex_vm, vm_nics = [],
      vm_disks = [ex_hard_disk, ex_volume0, ex_volume1],
      vm_attrs = [(''state'', JStr ''ON''), (''template'', JObj [(''name'', JStr ''ubuntu'')])]\<rparr>"

definition ex_disk_merged :: "json dict" where
  "ex_disk_merged =
     [(''disk0_sequence'', JNum 0), (''disk0_sizeInMb'', JNum 20),
      (''disk1_sequence'', JNum 1), (''disk1_sizeInMb'', JNum 30),
      (''virtualmachinetemplate'', JStr ''Ubuntu 20.04''),
      (''ip'', JStr ''10.0.0.5''),
      (''virtualappliance'', JStr ''Web Tier''),
      (''virtualdatacenter'', JStr ''DC1''),
      (''state'', JStr ''ON''),
      (''template'', JObj [(''name'', JStr ''ubuntu'')])]"

text \<open>
  The mapping that \<open>vars_from_json\<close> returns for this VM when the iterator of the
  renaming loop yields the keys \<open>iter_keys ex_vm_disks\<close>.
\<close>

definition ex_disk_vars :: "json dict" where
  "ex_disk_vars =
     [(''abq_virtualdatacenter'', JStr ''DC1''),
      (''abq_ip'', JStr ''10.0.0.5''), (''abq_disk1_sequence'', JNum 1),
      (''abq_state'', JStr ''ON''),
      (''abq_virtualmachinetemplate'', JStr ''Ubuntu 20.04''),
      (''abq_virtualappliance'', JStr ''Web Tier''),
      (''abq_template'', JObj [(''name'', JStr ''ubuntu'')]),
      (''abq_disk0_sizeInMb'', JNum 20), (''abq_disk0_sequence'', JNum 0),
      (''abq_disk1_sizeInMb'', JNum 30)]"

text \<open>
  A VM whose titles and custom variable have brackets and spaces, the locals after its
  name loop, and the groups of the inventory after its round of the loop.
\<close>

definition ex_vm_brackets :: vm where
  "ex_vm_brackets =
     ex_vm\<lparr>json_links :=
             [lnk ''nics'' ''nics'' ''application/vnd.abiquo.nics+json'',
              lnk ''harddisks'' ''harddisks'' ''application/vnd.abiquo.harddisks+json'',
              lnk ''volumes'' ''volumes'' ''application/vnd.abiquo.volumes+json'',
              lnk ''virtualmachinetemplate'' ''Ubuntu [20.04]''
                  ''application/vnd.abiquo.virtualmachinetemplate+json'',
              lnk ''virtualappliance'' ''[Web] Tier''
                  ''application/vnd.abiquo.virtualappliance+json'',
              lnk ''virtualdatacenter'' ''[Main DC]''
                  ''application/vnd.abiquo.virtualdatacenter+json'',
              lnk ''hardwareprofile'' ''hw [big] one''
                  ''application/vnd.abiquo.hardwareprofile+json'',
              lnk ''ip'' ''10.0.0.5'' ''application/vnd.abiquo.publicip+json''],
           json_attrs := [(''state'', JStr ''ON''),
                          (''variables'', JObj [(''my env'', JStr ''pro[d] 1'')])],
           iter_keys := [''hardwareprofile'', ''virtualdatacenter'', ''abq_hardwareprofile'',
             ''ip'', ''variables'', ''state'', ''virtualmachinetemplate'', ''virtualappliance'',
             ''abq_virtualdatacenter'', ''template'', ''abq_virtualappliance'', ''abq_state'',
             ''abq_template'']\<rparr>"

definition ex_brackets_locals :: locals where
  "ex_brackets_locals =
     \<lparr>vm_vapp = Some ''Web_Tier'', vm_vdc = Some ''Main_DC'',
      vm_template = Some ''Ubuntu_20.04'', vm_nic = Unbound\<rparr>"

definition ex_brackets_groups :: "(string list) dict" where
  "ex_brackets_groups =
     [(''template_Ubuntu_20.04'', [''10.0.0.5'']),
      (''vapp_Web_Tier'', [''10.0.0.5'']),
      (''vdc_Main_DC'', [''10.0.0.5'']),
      (''vdc_Main_DC_vapp_Web_Tier'', [''10.0.0.5'']),
      (''hwprof_hw_big_one'', [''10.0.0.5'']),
      (''var_my_env_prod_1'', [''10.0.0.5''])]"

section \<open>Properties\<close>

lemma replace_delete: "replace old [] s = filter (\<lambda>c. c \<noteq> old) s"
  by (induction s) auto

lemma replace_single: "replace old [n] s = map (\<lambda>c. if c = old then n else c) s"
  by (induction s) auto

lemma map_of_fold_update:
  "map_of (fold (\<lambda>(k, v) d. AList.update k v d) xs d) = map_of d ++ map_of (rev xs)"
  by (induction xs arbitrary: d) (auto simp: update_conv' map_add_def fun_eq_iff split: option.splits)

lemma distinct_fold_update:
  "distinct (map fst d) \<Longrightarrow> distinct (map fst (fold (\<lambda>(k, v) d. AList.update k v d) xs d))"
  by (induction xs arbitrary: d) (auto simp: distinct_update)

lemma distinct_dict_of: "distinct (map fst (dict_of xs))"
  by (simp add: dict_of_def distinct_fold_update)

lemma map_of_dict_of: "map_of (dict_of xs) = map_of (rev xs)"
  by (simp add: dict_of_def map_of_fold_update)

lemma first_of_filter:
  "(if length (filter P xs) > 0 then f (filter P xs ! 0) else g)
     = (case find P xs of None \<Rightarrow> g | Some x \<Rightarrow> f x)"
  by (induction xs) auto

lemma flatten_attrs_fold:
  "flatten_attrs p x d =
     fold (\<lambda>(k, v) d. AList.update k v d)
       (concat (map (\<lambda>(a, v). if a \<noteq> ''links'' then [(p @ ''_'' @ a, v)] else []) x)) d"
  unfolding flatten_attrs_def
  by (induction x arbitrary: d) (auto split: prod.splits)

lemma nic_step_spec:
  assumes "map_of (ent_attrs nic) ''sequence'' = Some (JNum i)"
  shows "nic_step nic d = Inr (fold (\<lambda>(k, v) d. AList.update k v d) (spec_nic_fields i nic) d)"
proof -
  let ?P = "\<lambda>l. contains ''network'' (link_rel l)"
  let ?d1 = "flatten_attrs (''nic'' @ show_int i) (ent_attrs nic) d"
  have "nic_step nic d =
        (if length (filter ?P (ent_links nic)) > 0
         then Inr (AList.update ((''nic'' @ show_int i) @ ''_net_type'')
                     (JStr (link_rel (filter ?P (ent_links nic) ! 0))) ?d1)
         else Inr ?d1)"
    using assms by (simp add: nic_step_def getitem_def Let_def)
  also have "\<dots> = (case find ?P (ent_links nic) of None \<Rightarrow> Inr ?d1
        | Some l \<Rightarrow> Inr (AList.update ((''nic'' @ show_int i) @ ''_net_type'') (JStr (link_rel l)) ?d1))"
    by (rule first_of_filter)
  also have "\<dots> = Inr (fold (\<lambda>(k, v) d. AList.update k v d) (spec_nic_fields i nic) d)"
    by (simp add: spec_nic_fields_def Let_def flatten_attrs_fold split: option.splits)
  finally show ?thesis .
qed

lemma nic_loop_spec:
  assumes "map (\<lambda>nic. map_of (ent_attrs nic) ''sequence'') nics = map (\<lambda>i. Some (JNum i)) seqs"
  shows "fold_err nic_step nics d =
     Inr (fold (\<lambda>(k, v) d. AList.update k v d)
            (concat (map (\<lambda>(i, nic). spec_nic_fields i nic) (zip seqs nics))) d)"
  using assms
proof (induction nics arbitrary: seqs d)
  case Nil
  then show ?case by simp
next
  case (Cons nic nics)
  then obtain i rest where s: "seqs = i # rest" by (cases seqs) auto
  with Cons.prems have h: "map_of (ent_attrs nic) ''sequence'' = Some (JNum i)"
    and r: "map (\<lambda>nic. map_of (ent_attrs nic) ''sequence'') nics = map (\<lambda>i. Some (JNum i)) rest"
    by auto
  show ?case
    unfolding s by (simp add: nic_step_spec[OF h] Cons.IH[OF r])
qed

text \<open>
  C4: for interfaces with integer sequence numbers, \<open>nic_json_to_dict\<close> returns the
  mapping built, interface after interface, from the fields of the specification: the
  prefix \<open>nic<sequence>\<close>, one field per attribute other than \<open>links\<close>, and
  \<open><prefix>_net_type\<close> from the first link whose relation contains \<open>network\<close>
  (no such field when no link matches).
\<close>

theorem nic_json_to_dict_fields:
  assumes "map (\<lambda>nic. map_of (ent_attrs nic) ''sequence'') nics = map (\<lambda>i. Some (JNum i)) seqs"
  shows "nic_json_to_dict nics =
           Inr (dict_of (concat (map (\<lambda>(i, nic). spec_nic_fields i nic) (zip seqs nics))))"
  unfolding nic_json_to_dict_def dict_of_def by (rule nic_loop_spec[OF assms])

theorem nic_json_to_dict_fields_witness:
  "map (\<lambda>nic. map_of (ent_attrs nic) ''sequence'') ex_nics = map (\<lambda>i. Some (JNum i)) [0, 1]
   \<and> nic_json_to_dict ex_nics =
       Inr [(''nic0_sequence'', JNum 0), (''nic0_ip'', JStr ''10.0.0.1''),
            (''nic0_net_type'', JStr ''privatenetwork''),
            (''nic1_mac'', JStr ''aa:bb''), (''nic1_sequence'', JNum 1)]"
proof -
  have h: "map (\<lambda>nic. map_of (ent_attrs nic) ''sequence'') ex_nics = map (\<lambda>i. Some (JNum i)) [0, 1]"
    by code_simp
  have e: "dict_of (concat (map (\<lambda>(i, nic). spec_nic_fields i nic) (zip [0, 1] ex_nics)))
     = [(''nic0_sequence'', JNum 0), (''nic0_ip'', JStr ''10.0.0.1''),
            (''nic0_net_type'', JStr ''privatenetwork''),
            (''nic1_mac'', JStr ''aa:bb''), (''nic1_sequence'', JNum 1)]"
    by code_simp
  from nic_json_to_dict_fields[OF h] h e show ?thesis by simp
qed

lemma select_public_PyNone:
  assumes "\<forall>l\<in>set ls. \<not> (link_type l = Some ''application/vnd.abiquo.publicip+json'' \<and> link_rel l = ''ip'')"
    and "select_public ls PyNone = Inr n'"
  shows "n' = PyNone"
  using assms
  by (induction ls) (auto simp: get_type_def split: option.splits if_splits)

lemma select_public_unqualified:
  assumes "\<forall>l\<in>set ls. \<not> (link_type l = Some ''application/vnd.abiquo.publicip+json'' \<and> link_rel l = ''ip'')"
    and "select_public ls n = Inr n'"
  shows "n' = (if ls = [] then n else PyNone)"
proof (cases ls)
  case Nil
  with assms show ?thesis by simp
next
  case (Cons l ls')
  with assms have "select_public ls' PyNone = Inr n'"
    by (auto simp: get_type_def split: option.splits if_splits)
  moreover from assms Cons have "\<forall>l\<in>set ls'. \<not> (link_type l = Some ''application/vnd.abiquo.publicip+json'' \<and> link_rel l = ''ip'')"
    by simp
  ultimately have "n' = PyNone" using select_public_PyNone by blast
  with Cons show ?thesis by simp
qed

lemma select_public_total:
  assumes "\<forall>l\<in>set ls. \<not> (link_type l = Some ''application/vnd.abiquo.publicip+json'' \<and> link_rel l = ''ip'')"
    and "\<forall>l\<in>set ls. link_type l \<noteq> None"
  shows "select_public ls n = Inr (if ls = [] then n else PyNone)"
  using assms
  by (induction ls arbitrary: n) (auto simp: get_type_def split: option.splits if_splits)

lemma select_default_unqualified:
  assumes "\<forall>l\<in>set ls. link_rel l \<noteq> r"
  shows "select_default r ls n = Inr (if ls = [] then n else PyNone)"
  using assms
  by (induction ls arbitrary: n) auto

lemma unqualified_fail_Ok: "unqualified_fail (follow v r a) = Ok x \<Longrightarrow> json_links v \<noteq> []"
  by (auto simp: unqualified_fail_def follow_def split: fetch.splits if_splits)

lemma enrich_Ok_links: "enrich cfg v = Ok vj \<Longrightarrow> json_links v \<noteq> []"
  unfolding enrich_def update_vm_disks_and_nics_def get_vm_nics_def
  by (cases "unqualified_fail (follow v ''nics'' (nics_get v))") (auto dest: unqualified_fail_Ok)

lemma selection_unqualified:
  assumes "\<forall>l\<in>set (json_links v). \<not> qualifies cfg l" "json_links v \<noteq> []"
   and "(if public_ip_only cfg then select_public (json_links v) n
            else select_default (default_net_interface cfg) (json_links v) n) = Inr n'"
  shows "n' = PyNone"
proof (cases "public_ip_only cfg")
  case True
  with assms(1) have "\<forall>l\<in>set (json_links v). \<not> (link_type l = Some ''application/vnd.abiquo.publicip+json'' \<and> link_rel l = ''ip'')"
    by (simp add: qualifies_def)
  from select_public_unqualified[OF this] assms(2,3) True show ?thesis by auto
next
  case False
  with assms(1) have "\<forall>l\<in>set (json_links v). link_rel l \<noteq> default_net_interface cfg"
    by (simp add: qualifies_def)
  from select_default_unqualified[OF this] assms(2,3) False show ?thesis by auto
qed

lemma selection_total:
  assumes "\<forall>l\<in>set (json_links v). \<not> qualifies cfg l" "json_links v \<noteq> []"
   and "public_ip_only cfg \<longrightarrow> (\<forall>l\<in>set (json_links v). link_type l \<noteq> None)"
  shows "(if public_ip_only cfg then select_public (json_links v) n
            else select_default (default_net_interface cfg) (json_links v) n) = Inr PyNone"
proof (cases "public_ip_only cfg")
  case True
  with assms(1) have "\<forall>l\<in>set (json_links v). \<not> (link_type l = Some ''application/vnd.abiquo.publicip+json'' \<and> link_rel l = ''ip'')"
    by (simp add: qualifies_def)
  from select_public_total[OF this] assms(2,3) True show ?thesis by auto
next
  case False
  with assms(1) have "\<forall>l\<in>set (json_links v). link_rel l \<noteq> default_net_interface cfg"
    by (simp add: qualifies_def)
  from select_default_unqualified[OF this] assms(2) False show ?thesis by auto
qed

lemma process_vm_unqualified_Ok:
  assumes noq: "\<forall>l\<in>set (json_links v). \<not> qualifies cfg l"
    and ok: "process_vm cfg v (lo, iv) = Ok st'"
  shows "snd st' = iv"
proof -
  from ok obtain vj where vj: "enrich cfg v = Ok vj"
    by (cases "enrich cfg v") (auto simp: process_vm_def)
  from ok vj obtain hv where hv: "vars_from_json (iter_keys v) vj = Inr hv"
    by (cases "vars_from_json (iter_keys v) vj") (auto simp: process_vm_def)
  from ok vj hv obtain lo1 hw where nm: "fold_err name_step (json_links v) (lo, []) = Inr (lo1, hw)"
    by (cases "fold_err name_step (json_links v) (lo, [])") (auto simp: process_vm_def)
  let ?sel = "(if public_ip_only cfg then select_public (json_links v) (vm_nic lo1)
            else select_default (default_net_interface cfg) (json_links v) (vm_nic lo1))"
  from ok vj hv nm obtain n where n: "?sel = Inr n"
    by (cases ?sel) (auto simp: process_vm_def)
  have "n = PyNone"
    using selection_unqualified[OF noq enrich_Ok_links[OF vj] n] .
  with ok vj hv nm n show ?thesis
    by (auto simp: process_vm_def)
qed

lemma process_vm_unqualified_total:
  assumes noq: "\<forall>l\<in>set (json_links v). \<not> qualifies cfg l"
    and vj: "enrich cfg v = Ok vj" and hv: "vars_from_json (iter_keys v) vj = Inr hv"
    and nm: "fold_err name_step (json_links v) (lo, []) = Inr (lo1, hw)"
    and ty: "public_ip_only cfg \<longrightarrow> (\<forall>l\<in>set (json_links v). link_type l \<noteq> None)"
  shows "process_vm cfg v (lo, iv) = Ok (lo1\<lparr>vm_nic := PyNone\<rparr>, iv)"
  using selection_total[OF noq enrich_Ok_links[OF vj] ty, of "vm_nic lo1"] vj hv nm
  by (simp add: process_vm_def)

text \<open>
  C1: a VM none of whose links passes the test of the selection loop adds nothing to the
  inventory. When its round of the loop ends without an exception the inventory is the one
  before the round and the loop goes on with the remaining VMs; and the round does end so
  whenever the enrichment, the host variables and the name loop succeed (and, under
  \<open>public_ip_only\<close>, every link has a type).
\<close>

theorem unqualified_vm_is_skipped:
  assumes "\<forall>l\<in>set (json_links v). \<not> qualifies cfg l"
  shows "(\<forall>st'. process_vm cfg v (lo, iv) = Ok st' \<longrightarrow>
            snd st' = iv \<and> vm_loop cfg (v # vs) (lo, iv) = vm_loop cfg vs st')
       \<and> (\<forall>vj hv lo1 hw.
            enrich cfg v = Ok vj \<and> vars_from_json (iter_keys v) vj = Inr hv
              \<and> fold_err name_step (json_links v) (lo, []) = Inr (lo1, hw)
              \<and> (public_ip_only cfg \<longrightarrow> (\<forall>l\<in>set (json_links v). link_type l \<noteq> None))
            \<longrightarrow> process_vm cfg v (lo, iv) = Ok (lo1\<lparr>vm_nic := PyNone\<rparr>, iv))"
  using process_vm_unqualified_Ok[OF assms] process_vm_unqualified_total[OF assms]
  by auto

theorem unqualified_vm_is_skipped_witness:
  "list_all (\<lambda>l. \<not> qualifies ex_config l) (json_links ex_vm_no_ip)
   \<and> (\<exists>lo'. process_vm ex_config ex_vm_no_ip (unbound_locals, empty_inventory)
               = Ok (lo', empty_inventory)
           \<and> vm_loop ex_config [ex_vm_no_ip, ex_vm] (unbound_locals, empty_inventory)
               = vm_loop ex_config [ex_vm] (lo', empty_inventory))"
proof -
  have h: "\<forall>l\<in>set (json_links ex_vm_no_ip). \<not> qualifies ex_config l"
    by code_simp
  have p: "process_vm ex_config ex_vm_no_ip (unbound_locals, empty_inventory)
             = Ok (\<lparr>vm_vapp = Some ''Web_Tier'', vm_vdc = Some ''DC1'',
                    vm_template = Some ''Ubuntu_20.04'', vm_nic = PyNone\<rparr>, empty_inventory)"
    by code_simp
  from unqualified_vm_is_skipped[OF h, of unbound_locals empty_inventory "[ex_vm]"] p
  have "vm_loop ex_config [ex_vm_no_ip, ex_vm] (unbound_locals, empty_inventory)
          = vm_loop ex_config [ex_vm]
              (\<lparr>vm_vapp = Some ''Web_Tier'', vm_vdc = Some ''DC1'',
                vm_template = Some ''Ubuntu_20.04'', vm_nic = PyNone\<rparr>, empty_inventory)"
    by blast
  with h p show ?thesis unfolding list_all_iff by blast
qed

lemma set_update_subset: "set (AList.update k v al) \<subseteq> insert (k, v) (set al)"
  by (induction al) auto

lemma fold_err_invariant:
  assumes "\<And>x s s'. P s \<Longrightarrow> f x s = Inr s' \<Longrightarrow> P s'"
    and "P s" and "fold_err f xs s = Inr s'"
  shows "P s'"
  using assms(2,3)
proof (induction xs arbitrary: s)
  case Nil
  then show ?case by simp
next
  case (Cons x xs)
  then obtain s1 where s1: "f x s = Inr s1" "fold_err f xs s1 = Inr s'"
    by (cases "f x s") auto
  from assms(1)[OF Cons.prems(1) s1(1)] have "P s1" .
  from Cons.IH[OF this s1(2)] show ?case .
qed

lemma hostvars_append_group: "hostvars (append_group g h iv) = hostvars iv"
  by (simp add: append_group_def split: option.splits)

lemma hosts_have_vars_update:
  assumes "hosts_have_vars iv" "\<forall>x\<in>set ids. x \<in> fst ` set (hostvars iv)"
  shows "hosts_have_vars (iv\<lparr>groups := AList.update g ids (groups iv)\<rparr>)"
proof -
  have "h \<in> fst ` set (hostvars iv)"
    if a: "p \<in> set (AList.update g ids (groups iv))" "h \<in> set (snd p)" for p h
  proof -
    from a(1) set_update_subset[of g ids "groups iv"]
    have "p = (g, ids) \<or> p \<in> set (groups iv)" by blast
    then show ?thesis
    proof
      assume "p = (g, ids)"
      with a(2) assms(2) show ?thesis by simp
    next
      assume "p \<in> set (groups iv)"
      with a(2) assms(1) show ?thesis unfolding hosts_have_vars_def by blast
    qed
  qed
  then show ?thesis unfolding hosts_have_vars_def by simp
qed

lemma append_group_keeps:
  assumes "hosts_have_vars iv" "h \<in> fst ` set (hostvars iv)"
  shows "hosts_have_vars (append_group g h iv)"
proof (cases "map_of (groups iv) g")
  case None
  then have g: "append_group g h iv = iv\<lparr>groups := AList.update g [h] (groups iv)\<rparr>"
    by (simp add: append_group_def)
  show ?thesis
    unfolding g using assms by (intro hosts_have_vars_update) simp_all
next
  case (Some ids)
  then have g: "append_group g h iv = iv\<lparr>groups := AList.update g (ids @ [h]) (groups iv)\<rparr>"
    by (simp add: append_group_def)
  from Some have "(g, ids) \<in> set (groups iv)" by (rule map_of_SomeD)
  with assms(1) have "\<forall>x\<in>set ids. x \<in> fst ` set (hostvars iv)"
    unfolding hosts_have_vars_def by force
  with assms(2) have "\<forall>x\<in>set (ids @ [h]). x \<in> fst ` set (hostvars iv)" by simp
  with assms(1) show ?thesis
    unfolding g by (intro hosts_have_vars_update)
qed

lemma keeps_append_group: "keeps h iv \<Longrightarrow> keeps h (append_group g h iv)"
  by (simp add: keeps_def append_group_keeps hostvars_append_group)

lemma keeps_var_step: "keeps h iv \<Longrightarrow> var_step kvs h var iv = Inr iv' \<Longrightarrow> keeps h iv'"
  by (auto simp: var_step_def Let_def keeps_append_group split: sum.splits json.splits)

lemma keeps_group_variables:
  assumes "keeps h iv" "group_variables vars h iv = Inr iv'"
  shows "keeps h iv'"
proof (cases vars)
  case (JObj kvs)
  with assms(2) have "fold_err (var_step kvs h) (map fst kvs) iv = Inr iv'" by simp
  from fold_err_invariant[where P="keeps h", OF _ assms(1) this] keeps_var_step
  show ?thesis by blast
next
  case (JArr xs)
  with assms show ?thesis
    by (cases xs; cases "hd xs") auto
next
  case (JStr s)
  with assms show ?thesis by (cases s) auto
qed (use assms in auto)

lemma keeps_update_hostvars:
  "hosts_have_vars iv \<Longrightarrow> keeps h (iv\<lparr>hostvars := AList.update h hv (hostvars iv)\<rparr>)"
  unfolding keeps_def hosts_have_vars_def by (simp add: dom_update)

lemma add_host_keeps:
  assumes "hosts_have_vars iv" "add_host h hv lo hw attrs iv = Inr iv'"
  shows "hosts_have_vars iv'"
proof -
  let ?iv1 = "iv\<lparr>hostvars := AList.update h hv (hostvars iv)\<rparr>"
  have k1: "keeps h ?iv1" using assms(1) by (rule keeps_update_hostvars)
  from assms(2) obtain tmpl vapp vdc where
    l: "vm_template lo = Some tmpl" "vm_vapp lo = Some vapp" "vm_vdc lo = Some vdc"
    by (auto simp: add_host_def Let_def split: option.splits)
  let ?iv5 = "append_group (''vdc_'' @ vdc @ ''_vapp_'' @ vapp) h
                (append_group (''vdc_'' @ vdc) h
                  (append_group (''vapp_'' @ vapp) h
                    (append_group (''template_'' @ tmpl) h ?iv1)))"
  let ?iv6 = "if hw \<noteq> [] then append_group (''hwprof_'' @ hw) h ?iv5 else ?iv5"
  have k5: "keeps h ?iv5" by (intro keeps_append_group k1)
  then have k6: "keeps h ?iv6" by (simp add: keeps_append_group)
  have r: "(case map_of attrs ''variables'' of None \<Rightarrow> Inr ?iv6
            | Some vars \<Rightarrow> group_variables vars h ?iv6) = Inr iv'"
    using assms(2) by (simp only: add_host_def Let_def l option.case)
  have "keeps h iv'"
  proof (cases "map_of attrs ''variables''")
    case None
    with r k6 show ?thesis by simp
  next
    case (Some vars)
    with r have "group_variables vars h ?iv6 = Inr iv'" by simp
    from keeps_group_variables[OF k6 this] show ?thesis .
  qed
  then show ?thesis by (simp add: keeps_def)
qed

lemma process_vm_Ok_cases:
  assumes ok: "process_vm cfg v st = Ok st'"
  shows "snd st' = snd st
     \<or> (\<exists>h hv lo hw attrs. add_host h hv lo hw attrs (snd st) = Inr (snd st'))"
proof -
  from ok obtain vj where vj: "enrich cfg v = Ok vj"
    by (cases "enrich cfg v") (auto simp: process_vm_def)
  from ok vj obtain hv where hv: "vars_from_json (iter_keys v) vj = Inr hv"
    by (cases "vars_from_json (iter_keys v) vj") (auto simp: process_vm_def)
  from ok vj hv obtain lo1 hw where nm: "fold_err name_step (json_links v) (fst st, []) = Inr (lo1, hw)"
    by (cases "fold_err name_step (json_links v) (fst st, [])") (auto simp: process_vm_def)
  let ?sel = "(if public_ip_only cfg then select_public (json_links v) (vm_nic lo1)
            else select_default (default_net_interface cfg) (json_links v) (vm_nic lo1))"
  from ok vj hv nm obtain n where n: "?sel = Inr n"
    by (cases ?sel) (auto simp: process_vm_def)
  have step: "(case n of
                Unbound \<Rightarrow> Raise (NameError ''vm_nic'')
              | PyNone \<Rightarrow> Ok (lo1\<lparr>vm_nic := n\<rparr>, snd st)
              | Title h \<Rightarrow>
                  (case vm_state cfg (vm_attrs vj) of Inl e \<Rightarrow> Raise e
                   | Inr alive \<Rightarrow>
                       if \<not> alive then Ok (lo1\<lparr>vm_nic := n\<rparr>, snd st)
                       else (case add_host h hv (lo1\<lparr>vm_nic := n\<rparr>) hw (vm_attrs vj) (snd st) of
                               Inl e \<Rightarrow> Raise e
                             | Inr iv \<Rightarrow> Ok (lo1\<lparr>vm_nic := n\<rparr>, iv)))) = Ok st'"
    using ok vj hv nm n by (simp add: process_vm_def Let_def)
  show ?thesis
  proof (cases n)
    case Unbound
    with step show ?thesis by simp
  next
    case PyNone
    with step show ?thesis by auto
  next
    case (Title h)
    with step obtain alive where a: "vm_state cfg (vm_attrs vj) = Inr alive"
      by (cases "vm_state cfg (vm_attrs vj)") auto
    show ?thesis
    proof (cases alive)
      case False
      with step Title a show ?thesis by auto
    next
      case True
      with step Title a obtain iv where
        "add_host h hv (lo1\<lparr>vm_nic := n\<rparr>) hw (vm_attrs vj) (snd st) = Inr iv" "st' = (lo1\<lparr>vm_nic := n\<rparr>, iv)"
        by (cases "add_host h hv (lo1\<lparr>vm_nic := n\<rparr>) hw (vm_attrs vj) (snd st)") auto
      then show ?thesis by auto
    qed
  qed
qed

lemma process_vm_keeps:
  assumes "hosts_have_vars (snd st)" "process_vm cfg v st = Ok st'"
  shows "hosts_have_vars (snd st')"
  using process_vm_Ok_cases[OF assms(2)] assms(1) add_host_keeps by auto

lemma vm_loop_keeps:
  assumes "hosts_have_vars (snd st)" "vm_loop cfg vms st = Ok st'"
  shows "hosts_have_vars (snd st')"
  using assms
proof (induction vms arbitrary: st)
  case Nil
  then show ?case by simp
next
  case (Cons v vms)
  then obtain st1 where s: "process_vm cfg v st = Ok st1" "vm_loop cfg vms st1 = Ok st'"
    by (cases "process_vm cfg v st") auto
  from process_vm_keeps[OF Cons.prems(1) s(1)] Cons.IH s(2) show ?case by blast
qed

lemma hosts_have_vars_empty: "hosts_have_vars empty_inventory"
  by (simp add: hosts_have_vars_def empty_inventory_def)

text \<open>
  C5: in the document that \<open>generate_inv_from_api\<close> returns, after a complete traversal
  or after an exception, every host identifier of a group list is a key of
  \<open>_meta.hostvars\<close>.
\<close>

theorem generated_hosts_have_vars:
  assumes "generate_inv_from_api cfg empty_inventory answer = Ok (err, iv)"
  shows "hosts_have_vars iv"
proof (cases "get_vms answer")
  case (Ok vms)
  show ?thesis
  proof (cases "vm_loop cfg vms (unbound_locals, empty_inventory)")
    case (Ok st)
    with \<open>get_vms answer = Ok vms\<close> assms have "iv = snd st"
      by (simp add: generate_inv_from_api_def)
    with vm_loop_keeps[OF _ Ok] hosts_have_vars_empty show ?thesis by simp
  next
    case (Raise e)
    with \<open>get_vms answer = Ok vms\<close> assms show ?thesis
      by (auto simp: generate_inv_from_api_def hosts_have_vars_empty)
  next
    case (Exit e c)
    with \<open>get_vms answer = Ok vms\<close> assms show ?thesis
      by (simp add: generate_inv_from_api_def)
  qed
next
  case (Raise e)
  with assms show ?thesis by (auto simp: generate_inv_from_api_def hosts_have_vars_empty)
next
  case (Exit e c)
  with assms show ?thesis by (simp add: generate_inv_from_api_def)
qed


theorem generated_hosts_have_vars_witness:
  "generate_inv_from_api ex_config empty_inventory (Response 200 [ex_vm]) = Ok ([], ex_inventory)
   \<and> hosts_have_vars ex_inventory"
proof -
  have h: "generate_inv_from_api ex_config empty_inventory (Response 200 [ex_vm])
             = Ok ([], ex_inventory)"
    by code_simp
  from generated_hosts_have_vars[OF h] h show ?thesis by simp
qed

text \<open>
  C8: when the traversal of the VMs raises an exception, \<open>generate_inv_from_api\<close> writes
  the traceback to the error stream and returns the empty inventory document, whatever
  the rounds before the exception had put into the inventory.
\<close>

theorem exception_gives_empty_inventory:
  assumes "vm_loop cfg vms (unbound_locals, inventory) = Raise e"
  shows "generate_inv_from_api cfg inventory (Response 200 vms)
           = Ok ([Traceback e], empty_inventory)"
  using assms by (simp add: generate_inv_from_api_def get_vms_def check_response_def)

theorem exception_gives_empty_inventory_witness:
  "vm_loop ex_config [ex_vm] (unbound_locals, empty_inventory) = Ok (ex_locals, ex_inventory)
   \<and> vm_loop ex_config [ex_vm, ex_vm_nics_500] (unbound_locals, empty_inventory)
       = Raise (NameError ''fail_with_error'')
   \<and> generate_inv_from_api ex_config empty_inventory (Response 200 [ex_vm, ex_vm_nics_500])
       = Ok ([Traceback (NameError ''fail_with_error'')], empty_inventory)"
proof -
  have p: "vm_loop ex_config [ex_vm] (unbound_locals, empty_inventory) = Ok (ex_locals, ex_inventory)"
    by code_simp
  have h: "vm_loop ex_config [ex_vm, ex_vm_nics_500] (unbound_locals, empty_inventory)
       = Raise (NameError ''fail_with_error'')"
    by code_simp
  from exception_gives_empty_inventory[OF h] p h show ?thesis by simp
qed

text \<open>
  C2: a status other than 200 on the interfaces, hard disks, volumes or template of a VM
  does not end the process. The handler calls \<open>fail_with_error\<close> without \<open>self.\<close>, the
  \<open>NameError\<close> is caught by \<open>generate_inv_from_api\<close>, and the empty inventory document
  is returned; the run then prints it and ends with exit code 0. Only the metadata request,
  whose handler calls \<open>self.fail_with_error\<close>, exits with code 1.
\<close>

theorem unqualified_fail_call_returns_empty_inventory:
  "generate_inv_from_api ex_config empty_inventory (Response 200 [ex_vm_nics_500])
     = Ok ([Traceback (NameError ''fail_with_error'')], empty_inventory)
   \<and> generate_inv_from_api ex_config empty_inventory (Response 200 [ex_vm_disks_500])
     = Ok ([Traceback (NameError ''fail_with_error'')], empty_inventory)
   \<and> generate_inv_from_api ex_config empty_inventory (Response 200 [ex_vm_volumes_500])
     = Ok ([Traceback (NameError ''fail_with_error'')], empty_inventory)
   \<and> generate_inv_from_api ex_config empty_inventory (Response 200 [ex_vm_template_500])
     = Ok ([Traceback (NameError ''fail_with_error'')], empty_inventory)
   \<and> generate_inv_from_api (ex_config\<lparr>get_metadata := True\<rparr>) empty_inventory
        (Response 200 [ex_vm_metadata_404])
     = Exit [ErrStr (ApiError 404), Traceback (ApiError 404)] 1
   \<and> main ex_to_int ex_config (ex_env\<lparr>refresh_cache := True\<rparr>) (Response 200 [ex_vm_nics_500])
     = \<lparr>stdout_doc = Some (inventory_json empty_inventory),
        stderr_text = [Traceback (NameError ''fail_with_error'')], exit_code = 0,
        cache_written = Some (inventory_json empty_inventory)\<rparr>"
  by code_simp

text \<open>
  C7: \<open>cache_available\<close> returns true exactly when the cache directory is configured,
  \<open>os.stat\<close> on the cache file succeeds, the maximal age is configured, and
  \<open>now - mtime \<le> max_age\<close> in integer seconds; otherwise it returns false, unless the
  first three hold and \<open>int\<close> rejects the configured age, when \<open>ValueError\<close> is raised.
\<close>

theorem cache_available_fresh:
  "(cache_available to_int cfg ev = Inr True \<longleftrightarrow>
      (\<exists>dpath mtime maxage m.
          cache_dir cfg = Some dpath \<and> os_stat ev (cache_path dpath) = Some mtime
        \<and> cache_max_age cfg = Some maxage \<and> to_int maxage = Some m
        \<and> time_now ev - mtime \<le> m))
   \<and> cache_available to_int cfg ev =
       (if \<exists>dpath mtime maxage.
              cache_dir cfg = Some dpath \<and> os_stat ev (cache_path dpath) = Some mtime
            \<and> cache_max_age cfg = Some maxage \<and> to_int maxage = None
        then Inl ValueError
        else Inr (\<exists>dpath mtime maxage m.
                cache_dir cfg = Some dpath \<and> os_stat ev (cache_path dpath) = Some mtime
              \<and> cache_max_age cfg = Some maxage \<and> to_int maxage = Some m
              \<and> time_now ev - mtime \<le> m))"
  unfolding cache_available_def
  by (cases "cache_dir cfg"; cases "os_stat ev (cache_path (the (cache_dir cfg)))";
      cases "cache_max_age cfg"; cases "to_int (the (cache_max_age cfg))") auto

text \<open>
  C9: when the refresh is not forced, the cache is fresh and the cache file cannot be opened
  or read, the run prints the bare empty mapping \<open>{}\<close>, which is not the empty inventory
  document \<open>{"_meta": {"hostvars": {}}}\<close>.
\<close>

theorem unreadable_fresh_cache_prints_empty_mapping:
  assumes "\<not> refresh_cache ev"
    and "cache_available to_int cfg ev = Inr True"
    and "cache_dir cfg = Some dpath"
    and "read_file ev (cache_path dpath) = Unreadable"
  shows "stdout_doc (main to_int cfg ev answer) = Some (JObj [])
       \<and> exit_code (main to_int cfg ev answer) = 0
       \<and> JObj [] \<noteq> inventory_json empty_inventory"
  using assms
  by (simp add: main_def choose_inv_def get_cache_def save_cache_def inventory_json_def Let_def)

theorem unreadable_fresh_cache_prints_empty_mapping_witness:
  "cache_available ex_to_int ex_config ex_env = Inr True
   \<and> stdout_doc (main ex_to_int ex_config ex_env (Response 200 [ex_vm])) = Some (JObj [])
   \<and> exit_code (main ex_to_int ex_config ex_env (Response 200 [ex_vm])) = 0
   \<and> JObj [] \<noteq> inventory_json empty_inventory"
proof -
  have a: "\<not> refresh_cache ex_env" by (simp add: ex_env_def)
  have b: "cache_available ex_to_int ex_config ex_env = Inr True"
    by (simp add: cache_available_def ex_config_def ex_env_def cache_path_def ex_to_int_def)
  have c: "cache_dir ex_config = Some ''/tmp''" by (simp add: ex_config_def)
  have d: "read_file ex_env (cache_path ''/tmp'') = Unreadable" by (simp add: ex_env_def)
  from unreadable_fresh_cache_prints_empty_mapping[OF a b c d, of "Response 200 [ex_vm]"] b
  show ?thesis by simp
qed

lemma digit_no_underscore: "k < 10 \<Longrightarrow> ''0123456789'' ! k \<noteq> CHR ''_''"
proof -
  assume "k < 10"
  then have "k \<in> {0, 1, 2, 3, 4, 5, 6, 7, 8, 9}" by auto
  then show ?thesis by (elim insertE) (simp_all add: nth_Cons')
qed

lemma dec_no_underscore: "CHR ''_'' \<notin> set (dec m)"
proof (induction m rule: dec.induct)
  case (1 n)
  show ?case
  proof (cases "n < 10")
    case True
    then show ?thesis using digit_no_underscore[of n] by (simp add: dec.simps[of n])
  next
    case False
    have "n mod 10 < 10" by simp
    from digit_no_underscore[OF this] 1[OF False] False show ?thesis
      by (simp add: dec.simps[of n])
  qed
qed

lemma format_d_no_underscore: "format_d s = Inr n \<Longrightarrow> CHR ''_'' \<notin> set n"
  by (cases s) (auto simp: show_int_def dec_no_underscore split: if_splits)

lemma seq_text_no_underscore: "seq_text x = Some n \<Longrightarrow> CHR ''_'' \<notin> set n"
  by (auto simp: seq_text_def dest: format_d_no_underscore split: sum.splits)

lemma prefix_unique:
  assumes "c \<notin> set n" "c \<notin> set n'" "n @ c # a = n' @ c # b"
  shows "n = n'"
  using assms
proof (induction n arbitrary: n')
  case Nil
  then show ?case by (cases n') auto
next
  case (Cons x n)
  then show ?case by (cases n') auto
qed


lemma fold_err_append:
  "fold_err f (xs @ ys) s = (case fold_err f xs s of Inl e \<Rightarrow> Inl e | Inr s' \<Rightarrow> fold_err f ys s')"
  by (induction xs arbitrary: s) (auto split: sum.splits)

lemma map_of_fold_update_other:
  assumes "K \<notin> fst ` set xs"
  shows "map_of (fold (\<lambda>(k, v) d. AList.update k v d) xs d) K = map_of d K"
proof -
  have "map_of (rev xs) K = None" using assms by (simp add: map_of_eq_None_iff)
  then show ?thesis by (simp add: map_of_fold_update map_add_def)
qed

lemma map_of_fold_update_last:
  assumes "distinct (map fst xs)" "(K, v) \<in> set xs"
  shows "map_of (fold (\<lambda>(k, v) d. AList.update k v d) xs d) K = Some v"
proof -
  have "map_of (rev xs) K = Some v"
    using assms by (intro map_of_is_SomeI) (simp_all add: rev_map[symmetric])
  then show ?thesis by (simp add: map_of_fold_update map_add_def)
qed

lemma flat_keys: "K \<in> fst ` set (flat p x) \<Longrightarrow> \<exists>a. K = p @ ''_'' @ a"
  by (induction x) (auto simp: flat_def split: if_splits)

lemma flat_mem: "(k, v) \<in> set x \<Longrightarrow> k \<noteq> ''links'' \<Longrightarrow> (p @ ''_'' @ k, v) \<in> set (flat p x)"
  by (induction x) (auto simp: flat_def)

lemma flat_distinct: "distinct (map fst x) \<Longrightarrow> distinct (map fst (flat p x))"
proof (induction x)
  case Nil
  then show ?case by (simp add: flat_def)
next
  case (Cons e x)
  obtain a v where e: "e = (a, v)" by (cases e)
  have r: "flat p (e # x) = (if a \<noteq> ''links'' then [(p @ ''_'' @ a, v)] else []) @ flat p x"
    by (simp add: flat_def e)
  have "p @ ''_'' @ a \<notin> fst ` set (flat p x)"
  proof
    assume "p @ ''_'' @ a \<in> fst ` set (flat p x)"
    then obtain w where "(p @ ''_'' @ a, w) \<in> set (flat p x)" by auto
    then have "\<exists>w'. (a, w') \<in> set x"
      by (induction x) (auto simp: flat_def split: if_splits)
    with Cons.prems e show False by force
  qed
  with Cons show ?case unfolding r by auto
qed

lemma flatten_attrs_flat:
  "flatten_attrs p x d = fold (\<lambda>(k, v) d. AList.update k v d) (flat p x) d"
  by (simp add: flatten_attrs_fold flat_def)

lemma distinct_flatten_attrs:
  "distinct (map fst d) \<Longrightarrow> distinct (map fst (flatten_attrs p x d))"
  by (simp add: flatten_attrs_flat distinct_fold_update)


lemma disk_step_shape:
  assumes "disk_step disk d = Inr d'"
  shows "\<exists>n. seq_text disk = Some n
           \<and> (d' = flatten_attrs (''disk'' @ n) (ent_attrs disk) d
               \<or> (\<exists>t. d' = AList.update ((''disk'' @ n) @ ''_'' @ ''tier'') (JStr t)
                            (flatten_attrs (''disk'' @ n) (ent_attrs disk) d)))"
proof -
  from assms obtain s where s: "getitem (ent_attrs disk) ''sequence'' = Inr s"
    by (cases "getitem (ent_attrs disk) ''sequence''") (auto simp: disk_step_def)
  from assms s obtain n where n: "format_d s = Inr n"
    by (cases "format_d s") (auto simp: disk_step_def)
  have st: "seq_text disk = Some n" by (simp add: seq_text_def s n)
  let ?d = "flatten_attrs (''disk'' @ n) (ent_attrs disk) d"
  let ?tl = "filter (\<lambda>x. contains ''tier'' (link_rel x)) (ent_links disk)"
  have e: "(if length ?tl > 0
            then (case get_title (?tl ! 0) of Inl e \<Rightarrow> Inl e
                  | Inr t \<Rightarrow> Inr (AList.update ((''disk'' @ n) @ ''_tier'') (JStr t) ?d))
            else Inr ?d) = Inr d'"
    using assms unfolding disk_step_def s n sum.case Let_def .
  show ?thesis
  proof (cases "length ?tl > 0")
    case True
    with e obtain t where "get_title (?tl ! 0) = Inr t"
      "d' = AList.update ((''disk'' @ n) @ ''_tier'') (JStr t) ?d"
      by (cases "get_title (?tl ! 0)") auto
    with st show ?thesis by auto
  next
    case False
    with e have "d' = ?d" by simp
    with st show ?thesis by auto
  qed
qed

lemma map_of_update_other: "K \<noteq> T \<Longrightarrow> map_of (AList.update T v d) K = map_of d K"
  by (simp add: update_conv')

lemma flatten_attrs_other:
  assumes "\<And>a. K \<noteq> p @ ''_'' @ a"
  shows "map_of (flatten_attrs p x d) K = map_of d K"
  unfolding flatten_attrs_flat
  using assms flat_keys[of K p x] by (intro map_of_fold_update_other) blast

lemma flatten_attrs_own:
  assumes "distinct (map fst x)" "(k, v) \<in> set x" "k \<noteq> ''links''"
  shows "map_of (flatten_attrs p x d) (p @ ''_'' @ k) = Some v"
  unfolding flatten_attrs_flat
  using assms by (intro map_of_fold_update_last flat_distinct flat_mem)

lemma disk_key_other:
  assumes "CHR ''_'' \<notin> set n" "CHR ''_'' \<notin> set n'" "n \<noteq> n'"
  shows "(''disk'' @ n) @ ''_'' @ k \<noteq> (''disk'' @ n') @ ''_'' @ a"
proof
  assume "(''disk'' @ n) @ ''_'' @ k = (''disk'' @ n') @ ''_'' @ a"
  then have "n @ CHR ''_'' # k = n' @ CHR ''_'' # a" by simp
  from prefix_unique[OF assms(1,2) this] assms(3) show False by simp
qed

lemma disk_step_other:
  assumes "disk_step w d = Inr d'" "seq_text w \<noteq> Some n" "CHR ''_'' \<notin> set n"
  shows "map_of d' ((''disk'' @ n) @ ''_'' @ k) = map_of d ((''disk'' @ n) @ ''_'' @ k)"
proof -
  from disk_step_shape[OF assms(1)] obtain n' where n': "seq_text w = Some n'"
    and sh: "d' = flatten_attrs (''disk'' @ n') (ent_attrs w) d
               \<or> (\<exists>t. d' = AList.update ((''disk'' @ n') @ ''_'' @ ''tier'') (JStr t)
                            (flatten_attrs (''disk'' @ n') (ent_attrs w) d))"
    by blast
  have ne: "n \<noteq> n'" using assms(2) n' by auto
  have u: "CHR ''_'' \<notin> set n'" using n' by (rule seq_text_no_underscore)
  have k: "(''disk'' @ n) @ ''_'' @ k \<noteq> (''disk'' @ n') @ ''_'' @ a" for a
    using assms(3) u ne by (rule disk_key_other)
  have f: "map_of (flatten_attrs (''disk'' @ n') (ent_attrs w) d) ((''disk'' @ n) @ ''_'' @ k)
           = map_of d ((''disk'' @ n) @ ''_'' @ k)"
    by (rule flatten_attrs_other) (rule k)
  from sh show ?thesis
  proof
    assume "d' = flatten_attrs (''disk'' @ n') (ent_attrs w) d"
    with f show ?thesis by simp
  next
    assume "\<exists>t. d' = AList.update ((''disk'' @ n') @ ''_'' @ ''tier'') (JStr t)
                            (flatten_attrs (''disk'' @ n') (ent_attrs w) d)"
    then obtain t where dt: "d' = AList.update ((''disk'' @ n') @ ''_'' @ ''tier'') (JStr t)
                            (flatten_attrs (''disk'' @ n') (ent_attrs w) d)" by blast
    show ?thesis
      unfolding dt map_of_update_other[OF k[of "''tier''"]] by (rule f)
  qed
qed

lemma disk_step_own:
  assumes "disk_step vol d = Inr d'" "seq_text vol = Some n"
    and "distinct (map fst (ent_attrs vol))" "(k, x) \<in> set (ent_attrs vol)"
    and "k \<noteq> ''links''" "k \<noteq> ''tier''"
  shows "map_of d' ((''disk'' @ n) @ ''_'' @ k) = Some x"
proof -
  from disk_step_shape[OF assms(1)] assms(2)
  have sh: "d' = flatten_attrs (''disk'' @ n) (ent_attrs vol) d
               \<or> (\<exists>t. d' = AList.update ((''disk'' @ n) @ ''_'' @ ''tier'') (JStr t)
                            (flatten_attrs (''disk'' @ n) (ent_attrs vol) d))"
    by auto
  have f: "map_of (flatten_attrs (''disk'' @ n) (ent_attrs vol) d) ((''disk'' @ n) @ ''_'' @ k) = Some x"
    using assms(3,4,5) by (rule flatten_attrs_own)
  have k: "(''disk'' @ n) @ ''_'' @ k \<noteq> (''disk'' @ n) @ ''_'' @ ''tier''"
    using assms(6) by simp
  from sh show ?thesis
  proof
    assume "d' = flatten_attrs (''disk'' @ n) (ent_attrs vol) d"
    with f show ?thesis by simp
  next
    assume "\<exists>t. d' = AList.update ((''disk'' @ n) @ ''_'' @ ''tier'') (JStr t)
                            (flatten_attrs (''disk'' @ n) (ent_attrs vol) d)"
    then obtain t where dt: "d' = AList.update ((''disk'' @ n) @ ''_'' @ ''tier'') (JStr t)
                            (flatten_attrs (''disk'' @ n) (ent_attrs vol) d)" by blast
    show ?thesis
      unfolding dt map_of_update_other[OF k] by (rule f)
  qed
qed

lemma disk_step_distinct:
  assumes "distinct (map fst d)" "disk_step w d = Inr d'"
  shows "distinct (map fst d')"
  using disk_step_shape[OF assms(2)] assms(1)
  by (auto simp: distinct_update distinct_flatten_attrs)

lemma disk_loop_other:
  assumes "fold_err disk_step ws d = Inr d'" "\<forall>w\<in>set ws. seq_text w \<noteq> Some n"
    and "CHR ''_'' \<notin> set n"
  shows "map_of d' ((''disk'' @ n) @ ''_'' @ k) = map_of d ((''disk'' @ n) @ ''_'' @ k)"
  using assms(1,2)
proof (induction ws arbitrary: d)
  case Nil
  then show ?case by simp
next
  case (Cons w ws)
  then obtain d1 where d1: "disk_step w d = Inr d1" "fold_err disk_step ws d1 = Inr d'"
    by (cases "disk_step w d") auto
  from Cons.prems(2) have o: "seq_text w \<noteq> Some n" and r: "\<forall>w\<in>set ws. seq_text w \<noteq> Some n"
    by auto
  from disk_step_other[OF d1(1) o assms(3)] Cons.IH[OF d1(2) r] show ?case by simp
qed

lemma disk_loop_distinct:
  assumes "distinct (map fst d)" "fold_err disk_step ws d = Inr d'"
  shows "distinct (map fst d')"
  using fold_err_invariant[where P="\<lambda>d. distinct (map fst d)" and f=disk_step, OF _ assms]
    disk_step_distinct by blast


lemma disk_dict_volume:
  assumes "disk_json_to_dict (pre @ vol # ws) = Inr dd" "seq_text vol = Some n"
    and "\<forall>w\<in>set ws. seq_text w \<noteq> Some n"
    and "distinct (map fst (ent_attrs vol))" "(k, x) \<in> set (ent_attrs vol)"
    and "k \<noteq> ''links''" "k \<noteq> ''tier''"
  shows "map_of dd ((''disk'' @ n) @ ''_'' @ k) = Some x" and "distinct (map fst dd)"
proof -
  from assms(1) obtain d0 where d0: "fold_err disk_step pre [] = Inr d0"
    "fold_err disk_step (vol # ws) d0 = Inr dd"
    unfolding disk_json_to_dict_def fold_err_append
    by (cases "fold_err disk_step pre []") auto
  from d0(2) obtain d1 where d1: "disk_step vol d0 = Inr d1" "fold_err disk_step ws d1 = Inr dd"
    by (cases "disk_step vol d0") auto
  have u: "CHR ''_'' \<notin> set n" using assms(2) by (rule seq_text_no_underscore)
  from disk_step_own[OF d1(1) assms(2,4,5,6,7)] disk_loop_other[OF d1(2) assms(3) u]
  show "map_of dd ((''disk'' @ n) @ ''_'' @ k) = Some x" by simp
  have "fold_err disk_step (pre @ vol # ws) [] = Inr dd"
    using assms(1) by (simp add: disk_json_to_dict_def)
  from disk_loop_distinct[OF _ this] show "distinct (map fst dd)" by simp
qed

lemma link_step_keys:
  assumes "link_step ls r d = Inr d'"
  shows "fst ` set d' \<subseteq> insert r (fst ` set d)"
proof (cases "length (filter (\<lambda>y. link_rel y = r) ls) > 0")
  case True
  then have "filter (\<lambda>y. link_rel y = r) ls ! 0 \<in> set (filter (\<lambda>y. link_rel y = r) ls)"
    by (intro nth_mem)
  then have r: "link_rel (filter (\<lambda>y. link_rel y = r) ls ! 0) = r" by simp
  from assms True obtain t where "d' = AList.update r (JStr t) d"
    unfolding link_step_def Let_def r
    by (cases "get_title (filter (\<lambda>y. link_rel y = r) ls ! 0)") auto
  then show ?thesis by (simp add: dom_update)
next
  case False
  with assms show ?thesis by (auto simp: link_step_def Let_def)
qed

lemma link_loop_keys:
  assumes "fold_err (link_step ls) rels d = Inr d'"
  shows "fst ` set d' \<subseteq> set rels \<union> fst ` set d"
  using assms
proof (induction rels arbitrary: d)
  case Nil
  then show ?case by simp
next
  case (Cons r rels)
  then obtain d1 where d1: "link_step ls r d = Inr d1" "fold_err (link_step ls) rels d1 = Inr d'"
    by (cases "link_step ls r d") auto
  from link_step_keys[OF d1(1)] Cons.IH[OF d1(2)]
  have "fst ` set d' \<subseteq> set rels \<union> insert r (fst ` set d)" by blast
  then show ?case by simp
qed

lemma map_of_append3:
  assumes "K \<notin> fst ` set b" "K \<notin> fst ` set c"
  shows "map_of (rev (a @ b @ c)) K = map_of (rev a) K"
proof -
  have "map_of (rev b) K = None" "map_of (rev c) K = None"
    using assms by (simp_all add: map_of_eq_None_iff)
  then show ?thesis by (simp add: map_add_def)
qed

lemma map_of_rev_distinct: "distinct (map fst xs) \<Longrightarrow> map_of (rev xs) = map_of xs"
proof
  fix K assume d: "distinct (map fst xs)"
  show "map_of (rev xs) K = map_of xs K"
  proof (cases "map_of xs K")
    case None
    then have "map_of (rev xs) K = None" by (simp add: map_of_eq_None_iff)
    with None show ?thesis by simp
  next
    case (Some v)
    then have "(K, v) \<in> set (rev xs)" by (auto dest: map_of_SomeD)
    moreover have "distinct (map fst (rev xs))" using d by (simp add: rev_map[symmetric])
    ultimately show ?thesis using Some by (simp add: map_of_is_SomeI)
  qed
qed

lemma merge_vars_lookup:
  assumes "merge_vars vj = Inr m" "disk_json_to_dict (vm_disks vj) = Inr dd"
    and "map_of dd K = Some x" "distinct (map fst dd)"
    and "K \<notin> set link_rels" "K \<notin> fst ` set (vm_attrs vj)"
  shows "map_of m K = Some x"
proof -
  from assms(1) obtain nd where nd: "nic_json_to_dict (vm_nics vj) = Inr nd"
    by (cases "nic_json_to_dict (vm_nics vj)") (auto simp: merge_vars_def)
  from assms(1,2) nd obtain ld where ld: "fold_err (link_step (vm_links vj)) link_rels [] = Inr ld"
    by (cases "fold_err (link_step (vm_links vj)) link_rels []") (auto simp: merge_vars_def Let_def)
  have m: "m = dict_of (dict_of (nd @ dd) @ ld @ vm_attrs vj)"
    using assms(1,2) nd ld by (simp add: merge_vars_def Let_def)
  have kl: "K \<notin> fst ` set ld" using link_loop_keys[OF ld] assms(5) by auto
  have "map_of (rev dd) K = Some x"
    using assms(3,4) by (simp add: map_of_rev_distinct)
  then have hv: "map_of (dict_of (nd @ dd)) K = Some x"
    by (simp add: map_of_dict_of map_add_def)
  have "map_of m K = map_of (rev (dict_of (nd @ dd))) K"
    unfolding m map_of_dict_of using kl assms(6) by (rule map_of_append3)
  also have "\<dots> = map_of (dict_of (nd @ dd)) K"
    by (simp add: map_of_rev_distinct distinct_dict_of)
  finally show ?thesis using hv by simp
qed

lemma unqualified_fail_Response:
  "unqualified_fail (follow v r a) = Ok x \<Longrightarrow> a = Response c y \<Longrightarrow> x = y"
  by (auto simp: unqualified_fail_def follow_def check_response_def split: if_splits)

lemma update_vm_disks_and_nics_disks:
  assumes "update_vm_disks_and_nics v = Ok vj"
    and "harddisks_get v = Response c1 hds" "volumes_get v = Response c2 vols"
  shows "vm_disks vj = hds @ vols" and "vm_attrs vj = json_attrs v"
proof -
  from assms(1) obtain nics where n: "get_vm_nics v = Ok nics"
    by (cases "get_vm_nics v") (auto simp: update_vm_disks_and_nics_def)
  from assms(1) n obtain disks where d: "get_vm_disks v = Ok disks"
    by (cases "get_vm_disks v") (auto simp: update_vm_disks_and_nics_def)
  from assms(1) n d obtain vs where w: "get_vm_volumes v = Ok vs"
    by (cases "get_vm_volumes v") (auto simp: update_vm_disks_and_nics_def)
  have "disks = hds" using d assms(2) unfolding get_vm_disks_def
    by (rule unqualified_fail_Response)
  moreover have "vs = vols" using w assms(3) unfolding get_vm_volumes_def
    by (rule unqualified_fail_Response)
  ultimately show "vm_disks vj = hds @ vols" and "vm_attrs vj = json_attrs v"
    using assms(1) n d w by (auto simp: update_vm_disks_and_nics_def)
qed

lemma update_vm_template_fields:
  assumes "update_vm_template v vj1 = Ok vj2"
  shows "vm_disks vj2 = vm_disks vj1"
    and "fst ` set (vm_attrs vj2) \<subseteq> insert ''template'' (fst ` set (vm_attrs vj1))"
proof -
  from assms obtain t where t: "get_vm_template v = Ok t"
    by (cases "get_vm_template v") (auto simp: update_vm_template_def)
  from assms t obtain js where js: "del_links t = Inr js"
    by (cases "del_links t") (auto simp: update_vm_template_def)
  from assms t js have e: "vj2 = vj1\<lparr>vm_attrs := AList.update ''template'' js (vm_attrs vj1)\<rparr>"
    by (simp add: update_vm_template_def)
  show "vm_disks vj2 = vm_disks vj1" by (simp add: e)
  show "fst ` set (vm_attrs vj2) \<subseteq> insert ''template'' (fst ` set (vm_attrs vj1))"
    by (simp add: e dom_update)
qed

lemma update_vm_metadata_fields:
  assumes "update_vm_metadata v vj2 = Ok vj"
  shows "vm_disks vj = vm_disks vj2"
    and "fst ` set (vm_attrs vj) \<subseteq> insert ''metadata'' (fst ` set (vm_attrs vj2))"
proof -
  from assms obtain c m where r: "follow v ''metadata'' (metadata_get v) = Response c m"
    by (cases "follow v ''metadata'' (metadata_get v)") (auto simp: update_vm_metadata_def)
  from assms r have e: "vj = vj2\<lparr>vm_attrs := AList.update ''metadata'' m (vm_attrs vj2)\<rparr>"
    by (cases "check_response 200 c") (auto simp: update_vm_metadata_def fail_with_error_def)
  show "vm_disks vj = vm_disks vj2" by (simp add: e)
  show "fst ` set (vm_attrs vj) \<subseteq> insert ''metadata'' (fst ` set (vm_attrs vj2))"
    by (simp add: e dom_update)
qed

lemma enrich_fields:
  assumes "enrich cfg v = Ok vj"
    and "harddisks_get v = Response c1 hds" "volumes_get v = Response c2 vols"
  shows "vm_disks vj = hds @ vols"
    and "fst ` set (vm_attrs vj) \<subseteq> {''template'', ''metadata''} \<union> fst ` set (json_attrs v)"
proof -
  from assms(1) obtain vj1 where v1: "update_vm_disks_and_nics v = Ok vj1"
    by (cases "update_vm_disks_and_nics v") (auto simp: enrich_def)
  from assms(1) v1 obtain vj2 where v2: "update_vm_template v vj1 = Ok vj2"
    by (cases "update_vm_template v vj1") (auto simp: enrich_def)
  note a = update_vm_disks_and_nics_disks[OF v1 assms(2,3)]
  note b = update_vm_template_fields[OF v2]
  have "vm_disks vj = hds @ vols
      \<and> fst ` set (vm_attrs vj) \<subseteq> {''template'', ''metadata''} \<union> fst ` set (json_attrs v)"
  proof (cases "get_metadata cfg")
    case True
    with assms(1) v1 v2 have "update_vm_metadata v vj2 = Ok vj" by (simp add: enrich_def)
    note c = update_vm_metadata_fields[OF this]
    from a(2) b(2) have "fst ` set (vm_attrs vj2) \<subseteq> insert ''template'' (fst ` set (json_attrs v))"
      by simp
    with c(2) have "fst ` set (vm_attrs vj) \<subseteq> {''template'', ''metadata''} \<union> fst ` set (json_attrs v)"
      by blast
    moreover from a(1) b(1) c(1) have "vm_disks vj = hds @ vols" by simp
    ultimately show ?thesis by simp
  next
    case False
    with assms(1) v1 v2 have e: "vj = vj2" by (simp add: enrich_def)
    from a(2) b(2) have "fst ` set (vm_attrs vj2) \<subseteq> insert ''template'' (fst ` set (json_attrs v))"
      by simp
    then have "fst ` set (vm_attrs vj) \<subseteq> {''template'', ''metadata''} \<union> fst ` set (json_attrs v)"
      unfolding e by blast
    moreover from a(1) b(1) have "vm_disks vj = hds @ vols" by (simp add: e)
    ultimately show ?thesis by simp
  qed
  then show "vm_disks vj = hds @ vols"
    and "fst ` set (vm_attrs vj) \<subseteq> {''template'', ''metadata''} \<union> fst ` set (json_attrs v)"
    by simp_all
qed

lemma rename_step_keeps:
  assumes "\<not> startswith K ''abq''"
    and "map_of d K = Some x \<or> map_of d K = None \<and> map_of d (''abq_'' @ K) = Some x"
    and "rename_step n i d = Inr d'"
  shows "map_of d' K = Some x \<or> map_of d' K = None \<and> map_of d' (''abq_'' @ K) = Some x"
proof (cases "startswith i ''abq''")
  case True
  with assms(3) have "d' = d" by (simp add: rename_step_def)
  with assms(2) show ?thesis by simp
next
  case False
  with assms(3) obtain v where v: "map_of d i = Some v"
    and d': "d' = AList.update (''abq_'' @ i) v (AList.delete i d)"
    by (auto simp: rename_step_def getitem_def Let_def split: option.splits if_splits)
  have ne: "K \<noteq> ''abq_'' @ i" using assms(1) by (auto simp: startswith_def)
  show ?thesis
  proof (cases "i = K")
    case True
    with v assms(2) have "v = x" by auto
    with True d' show ?thesis by (simp add: update_conv' delete_conv')
  next
    case F: False
    have "i \<noteq> ''abq_'' @ K" using False by (auto simp: startswith_def)
    with F have "map_of d' K = map_of d K" "map_of d' (''abq_'' @ K) = map_of d (''abq_'' @ K)"
      using ne d' by (simp_all add: update_conv' delete_conv')
    with assms(2) show ?thesis by simp
  qed
qed

lemma rename_keys_keeps:
  assumes "\<not> startswith K ''abq''" and "map_of d K = Some x" and "rename_keys yielded d = Inr d'"
  shows "map_of d' K = Some x \<or> map_of d' (''abq_'' @ K) = Some x"
proof -
  let ?P = "\<lambda>d. map_of d K = Some x \<or> map_of d K = None \<and> map_of d (''abq_'' @ K) = Some x"
  have "?P d'"
  proof (rule fold_err_invariant[where P = ?P and f = "rename_step (length d)"])
    show "?P s'" if "?P s" "rename_step (length d) i s = Inr s'" for i s s'
      using rename_step_keeps[OF assms(1) that] .
    show "?P d" using assms(2) by simp
    show "fold_err (rename_step (length d)) yielded d = Inr d'"
      using assms(3) by (simp add: rename_keys_def)
  qed
  then show ?thesis by auto
qed

text \<open>
  C10: the enrichment puts the volumes after the hard disks in the one list \<open>disks\<close>,
  and both are flattened under the prefix \<open>disk<sequence>\<close>. So when a volume has the
  sequence number of a hard disk (and no later volume has it too), the mapping of the host
  variables holds the volume's value under every key the two share: for a field \<open>k\<close> of
  the volume (other than \<open>links\<close> and \<open>tier\<close>) the entry \<open>disk<sequence>_k\<close> of the
  mapping that \<open>vars_from_json\<close> merges is the volume's value, unless the VM has a
  top-level attribute of that name; and whatever keys the iterator of the renaming loop
  yields, when \<open>vars_from_json\<close> returns, the mapping it returns holds the volume's value
  under \<open>abq_disk<sequence>_k\<close> or, if the loop missed the key, under
  \<open>disk<sequence>_k\<close>.
\<close>

theorem volume_fields_overwrite_hard_disk:
  assumes "enrich cfg v = Ok vj" and "merge_vars vj = Inr m"
    and "harddisks_get v = Response c1 hds"
    and "volumes_get v = Response c2 (vs @ vol # ws)"
    and "hdisk \<in> set hds" and "seq_text hdisk = Some n" and "seq_text vol = Some n"
    and "\<forall>w\<in>set ws. seq_text w \<noteq> Some n"
    and "distinct (map fst (ent_attrs vol))"
    and "(k, y) \<in> set (ent_attrs hdisk)" and "(k, x) \<in> set (ent_attrs vol)"
    and "k \<noteq> ''links''" and "k \<noteq> ''tier''"
    and "''disk'' @ n @ ''_'' @ k \<notin> fst ` set (json_attrs v)"
  shows "map_of m (''disk'' @ n @ ''_'' @ k) = Some x
       \<and> (\<forall>yielded hv. vars_from_json yielded vj = Inr hv \<longrightarrow>
               map_of hv (''abq_'' @ ''disk'' @ n @ ''_'' @ k) = Some x
             \<or> map_of hv (''disk'' @ n @ ''_'' @ k) = Some x)"
proof -
  let ?K = "(''disk'' @ n) @ ''_'' @ k"
  note f = enrich_fields[OF assms(1,3,4)]
  from assms(2) obtain dd where dd: "disk_json_to_dict (vm_disks vj) = Inr dd"
    by (cases "disk_json_to_dict (vm_disks vj)") (auto simp: merge_vars_def split: sum.splits)
  then have "disk_json_to_dict ((hds @ vs) @ vol # ws) = Inr dd" by (simp add: f(1))
  note v = disk_dict_volume[OF this assms(7,8,9,11,12,13)]
  have nl: "?K \<notin> set link_rels" by (simp add: link_rels_def)
  have "?K \<noteq> ''template''" "?K \<noteq> ''metadata''" by simp_all
  with f(2) assms(14) have na: "?K \<notin> fst ` set (vm_attrs vj)" by auto
  from merge_vars_lookup[OF assms(2) dd v nl na]
  have m: "map_of m (''disk'' @ n @ ''_'' @ k) = Some x" by simp
  have ns: "\<not> startswith (''disk'' @ n @ ''_'' @ k) ''abq''" by (simp add: startswith_def)
  have "map_of hv (''abq_'' @ ''disk'' @ n @ ''_'' @ k) = Some x
          \<or> map_of hv (''disk'' @ n @ ''_'' @ k) = Some x"
    if "vars_from_json yielded vj = Inr hv" for yielded hv
  proof -
    from that have "rename_keys yielded m = Inr hv" by (simp add: vars_from_json_def assms(2))
    from rename_keys_keeps[OF ns m this] show ?thesis by blast
  qed
  with m show ?thesis by blast
qed

theorem volume_fields_overwrite_hard_disk_witness:
  "enrich ex_config ex_vm_disks = Ok ex_disks_json
   \<and> merge_vars ex_disks_json = Inr ex_disk_merged
   \<and> map_of (ent_attrs ex_hard_disk) ''sizeInMb'' = Some (JNum 10)
   \<and> map_of (ent_attrs ex_volume0) ''sizeInMb'' = Some (JNum 20)
   \<and> map_of ex_disk_merged ''disk0_sizeInMb'' = Some (JNum 20)
   \<and> vars_from_json (iter_keys ex_vm_disks) ex_disks_json = Inr ex_disk_vars
   \<and> map_of ex_disk_vars ''abq_disk0_sizeInMb'' = Some (JNum 20)
   \<and> map_of ex_disk_vars ''disk0_sizeInMb'' = None"
proof -
  have h1: "enrich ex_config ex_vm_disks = Ok ex_disks_json" by code_simp
  have h2: "merge_vars ex_disks_json = Inr ex_disk_merged" by code_simp
  have h3: "harddisks_get ex_vm_disks = Response 200 [ex_hard_disk]"
    by (simp add: ex_vm_disks_def)
  have h4: "volumes_get ex_vm_disks = Response 200 ([] @ ex_volume0 # [ex_volume1])"
    by (simp add: ex_vm_disks_def)
  have h5: "ex_hard_disk \<in> set [ex_hard_disk]" by simp
  have h6: "seq_text ex_hard_disk = Some ''0''" by code_simp
  have h7: "seq_text ex_volume0 = Some ''0''" by code_simp
  have h8: "\<forall>w\<in>set [ex_volume1]. seq_text w \<noteq> Some ''0''" by code_simp
  have h9: "distinct (map fst (ent_attrs ex_volume0))" by code_simp
  have h10: "(''sizeInMb'', JNum 10) \<in> set (ent_attrs ex_hard_disk)"
    by (simp add: ex_hard_disk_def)
  have h11: "(''sizeInMb'', JNum 20) \<in> set (ent_attrs ex_volume0)"
    by (simp add: ex_volume0_def)
  have h12: "''sizeInMb'' \<noteq> ''links''" and h13: "''sizeInMb'' \<noteq> ''tier''" by simp_all
  have h14: "''disk'' @ ''0'' @ ''_'' @ ''sizeInMb'' \<notin> fst ` set (json_attrs ex_vm_disks)"
    by code_simp
  have r: "vars_from_json (iter_keys ex_vm_disks) ex_disks_json = Inr ex_disk_vars"
    by code_simp
  have n: "map_of ex_disk_vars ''disk0_sizeInMb'' = None" by code_simp
  note t = volume_fields_overwrite_hard_disk[OF h1 h2 h3 h4 h5 h6 h7 h8 h9 h10 h11 h12 h13 h14]
  from t have a: "map_of ex_disk_merged ''disk0_sizeInMb'' = Some (JNum 20)" by simp
  from t r have "map_of ex_disk_vars (''abq_'' @ ''disk'' @ ''0'' @ ''_'' @ ''sizeInMb'') = Some (JNum 20)
                 \<or> map_of ex_disk_vars (''disk'' @ ''0'' @ ''_'' @ ''sizeInMb'') = Some (JNum 20)"
    by blast
  with n have b: "map_of ex_disk_vars ''abq_disk0_sizeInMb'' = Some (JNum 20)" by simp
  have "map_of (ent_attrs ex_hard_disk) ''sizeInMb'' = Some (JNum 10)"
    by (simp add: ex_hard_disk_def)
  moreover have "map_of (ent_attrs ex_volume0) ''sizeInMb'' = Some (JNum 20)"
    by (simp add: ex_volume0_def)
  ultimately show ?thesis using h1 h2 a r b n by simp
qed

lemma collision_loop:
  "fold_err (rename_step 2) ys [(''name'', v), (''abq_name'', w)] = Inl RuntimeError
   \<or> (\<exists>k. fold_err (rename_step 2) ys [(''name'', v), (''abq_name'', w)] = Inl (KeyError k))
   \<or> fold_err (rename_step 2) ys [(''name'', v), (''abq_name'', w)]
       = Inr [(''name'', v), (''abq_name'', w)]"
proof (induction ys)
  case Nil
  then show ?case by simp
next
  case (Cons k ys)
  let ?d = "[(''name'', v), (''abq_name'', w)]"
  show ?case
  proof (cases "startswith k ''abq''")
    case True
    then have "rename_step 2 k ?d = Inr ?d" by (simp add: rename_step_def)
    with Cons show ?thesis by simp
  next
    case False
    show ?thesis
    proof (cases "k = ''name''")
      case True
      then have "rename_step 2 k ?d = Inl RuntimeError"
        by (simp add: rename_step_def startswith_def getitem_def Let_def)
      then show ?thesis by simp
    next
      case F2: False
      have "k \<noteq> ''abq_name''" using False by (auto simp: startswith_def)
      with F2 have "rename_step 2 k ?d = Inl (KeyError k)"
        using False by (simp add: rename_step_def getitem_def)
      then show ?thesis by simp
    qed
  qed
qed

text \<open>
  C3: not every key of the mapping that \<open>vars_from_json\<close> returns begins with the
  prefix. The renaming loop \<open>for i in d\<close> deletes and inserts keys of \<open>d\<close> while it
  iterates over \<open>d\<close>, so the keys that the iterator yields are not the keys the mapping had
  when the loop began. For the VM record with the attributes \<open>id\<close>, \<open>name\<close>, \<open>cpu\<close>, \<open>uuid\<close>
  the iterator yields \<open>id\<close>, \<open>abq_id\<close>, \<open>cpu\<close>, \<open>abq_id\<close>, \<open>abq_cpu\<close>, \<open>uuid\<close>: the loop
  returns and the key \<open>name\<close>, which does not begin with \<open>abq\<close>, is in the result. For
  the VM record with the attributes \<open>name\<close> and \<open>abq_name\<close> the loop raises
  \<open>RuntimeError\<close> when it renames \<open>name\<close>, and whatever keys the iterator yields the loop
  either raises or returns the mapping with the key \<open>name\<close> unchanged.
\<close>
theorem renaming_loop_misses_keys:
  "vars_from_json ex_attrs4_yielded ex_attrs4
     = Inr [(''name'', JStr ''vm7''), (''abq_id'', JNum 7), (''abq_cpu'', JNum 2),
            (''abq_uuid'', JStr ''u-7'')]
   \<and> \<not> startswith ''name'' ''abq''
   \<and> vars_from_json [''abq_name'', ''name''] ex_collision = Inl RuntimeError
   \<and> (\<forall>yielded.
          vars_from_json yielded ex_collision = Inl RuntimeError
        \<or> (\<exists>k. vars_from_json yielded ex_collision = Inl (KeyError k))
        \<or> vars_from_json yielded ex_collision
            = Inr [(''name'', JStr ''vm7''), (''abq_name'', JStr ''old'')])"
proof -
  have a: "vars_from_json ex_attrs4_yielded ex_attrs4
     = Inr [(''name'', JStr ''vm7''), (''abq_id'', JNum 7), (''abq_cpu'', JNum 2),
            (''abq_uuid'', JStr ''u-7'')]"
    by code_simp
  have b: "\<not> startswith ''name'' ''abq''" by code_simp
  have c: "vars_from_json [''abq_name'', ''name''] ex_collision = Inl RuntimeError"
    by code_simp
  have m: "merge_vars ex_collision = Inr [(''name'', JStr ''vm7''), (''abq_name'', JStr ''old'')]"
    by code_simp
  have d: "vars_from_json yielded ex_collision
             = fold_err (rename_step 2) yielded [(''name'', JStr ''vm7''), (''abq_name'', JStr ''old'')]"
    for yielded
    by (simp add: vars_from_json_def m rename_keys_def numeral_2_eq_2)
  show ?thesis
    unfolding d using a b c[unfolded d] collision_loop[of _ "JStr ''vm7''" "JStr ''old''"]
    by blast
qed

lemma in_group_append_same: "in_group g h (append_group g h iv)"
  by (cases "map_of (groups iv) g") (simp_all add: in_group_def append_group_def update_conv')

lemma in_group_append_other:
  assumes "in_group g h iv"
  shows "in_group g h (append_group g' h' iv)"
proof (cases "g' = g")
  case True
  from assms obtain ids where "map_of (groups iv) g = Some ids" "h \<in> set ids"
    by (auto simp: in_group_def split: option.splits)
  with True show ?thesis by (simp add: in_group_def append_group_def update_conv')
next
  case False
  with assms show ?thesis
    by (cases "map_of (groups iv) g'") (simp_all add: in_group_def append_group_def update_conv')
qed

lemma var_step_adds:
  "map_of kvs var = Some (JStr val) \<Longrightarrow>
   var_step kvs h var iv = Inr (append_group (''var_'' @ sanitize var @ ''_'' @ sanitize val) h iv)"
  by (simp add: var_step_def getitem_def Let_def)

lemma var_step_group:
  assumes "var_step kvs h var iv = Inr iv'"
  shows "\<exists>g. iv' = append_group g h iv"
proof -
  from assms obtain x where x: "getitem kvs var = Inr x"
    by (cases "getitem kvs var") (auto simp: var_step_def Let_def)
  with assms show ?thesis
    by (cases x) (auto simp: var_step_def Let_def)
qed

lemma in_group_var_step:
  "in_group g h iv \<Longrightarrow> var_step kvs h' var iv = Inr iv' \<Longrightarrow> in_group g h iv'"
  using var_step_group in_group_append_other by blast

lemma in_group_var_loop:
  assumes "in_group g h iv" "fold_err (var_step kvs h') ks iv = Inr iv'"
  shows "in_group g h iv'"
  using fold_err_invariant[where P="in_group g h" and f="var_step kvs h'", OF _ assms]
    in_group_var_step by blast

lemma in_group_group_variables:
  assumes "in_group g h iv" "group_variables vars h' iv = Inr iv'"
  shows "in_group g h iv'"
proof (cases vars)
  case (JObj kvs)
  with assms(2) have "fold_err (var_step kvs h') (map fst kvs) iv = Inr iv'" by simp
  from in_group_var_loop[OF assms(1) this] show ?thesis .
next
  case (JArr xs)
  with assms show ?thesis
    by (cases xs; cases "hd xs") auto
next
  case (JStr s)
  with assms show ?thesis by (cases s) auto
qed (use assms in auto)

lemma group_variables_adds:
  assumes "group_variables (JObj kvs) h iv = Inr iv'" "map_of kvs var = Some (JStr val)"
  shows "in_group (''var_'' @ sanitize var @ ''_'' @ sanitize val) h iv'"
proof -
  let ?g = "''var_'' @ sanitize var @ ''_'' @ sanitize val"
  from assms(2) have "var \<in> set (map fst kvs)"
    by (auto dest: map_of_SomeD intro: rev_image_eqI)
  then obtain pre post where sp: "map fst kvs = pre @ var # post"
    by (auto dest: split_list)
  from assms(1) have "fold_err (var_step kvs h) (pre @ var # post) iv = Inr iv'"
    by (simp add: sp)
  then obtain iv1 where iv1: "fold_err (var_step kvs h) pre iv = Inr iv1"
    "fold_err (var_step kvs h) (var # post) iv1 = Inr iv'"
    unfolding fold_err_append by (cases "fold_err (var_step kvs h) pre iv") auto
  from iv1(2) var_step_adds[OF assms(2), of h iv1]
  have "fold_err (var_step kvs h) post (append_group ?g h iv1) = Inr iv'" by simp
  from in_group_var_loop[OF in_group_append_same this] show ?thesis .
qed

lemma add_host_groups:
  assumes a: "add_host h hv lo hw attrs iv = Inr iv'"
    and l: "vm_template lo = Some tmpl" "vm_vapp lo = Some vapp" "vm_vdc lo = Some vdc"
  shows "in_group (''template_'' @ tmpl) h iv'" and "in_group (''vapp_'' @ vapp) h iv'"
    and "in_group (''vdc_'' @ vdc) h iv'"
    and "in_group (''vdc_'' @ vdc @ ''_vapp_'' @ vapp) h iv'"
    and "hw \<noteq> [] \<Longrightarrow> in_group (''hwprof_'' @ hw) h iv'"
    and "map_of attrs ''variables'' = Some (JObj kvs) \<Longrightarrow> map_of kvs var = Some (JStr val)
         \<Longrightarrow> in_group (''var_'' @ sanitize var @ ''_'' @ sanitize val) h iv'"
proof -
  let ?iv1 = "iv\<lparr>hostvars := AList.update h hv (hostvars iv)\<rparr>"
  let ?iv2 = "append_group (''template_'' @ tmpl) h ?iv1"
  let ?iv3 = "append_group (''vapp_'' @ vapp) h ?iv2"
  let ?iv4 = "append_group (''vdc_'' @ vdc) h ?iv3"
  let ?iv5 = "append_group (''vdc_'' @ vdc @ ''_vapp_'' @ vapp) h ?iv4"
  let ?iv6 = "if hw \<noteq> [] then append_group (''hwprof_'' @ hw) h ?iv5 else ?iv5"
  have r: "(case map_of attrs ''variables'' of None \<Rightarrow> Inr ?iv6
            | Some vars \<Rightarrow> group_variables vars h ?iv6) = Inr iv'"
    using a by (simp only: add_host_def Let_def l option.case)
  have keep: "in_group g h ?iv6 \<Longrightarrow> in_group g h iv'" for g
  proof (cases "map_of attrs ''variables''")
    case None
    assume "in_group g h ?iv6"
    with r None show ?thesis by simp
  next
    case (Some vars)
    assume g: "in_group g h ?iv6"
    from r Some have "group_variables vars h ?iv6 = Inr iv'" by simp
    from in_group_group_variables[OF g this] show ?thesis .
  qed
  have k6: "in_group g h ?iv5 \<Longrightarrow> in_group g h ?iv6" for g
    by (simp add: in_group_append_other)
  have "in_group (''template_'' @ tmpl) h ?iv5"
    by (intro in_group_append_other in_group_append_same)
  then show "in_group (''template_'' @ tmpl) h iv'" by (intro keep k6)
  have "in_group (''vapp_'' @ vapp) h ?iv5"
    by (intro in_group_append_other in_group_append_same)
  then show "in_group (''vapp_'' @ vapp) h iv'" by (intro keep k6)
  have "in_group (''vdc_'' @ vdc) h ?iv5"
    by (intro in_group_append_other in_group_append_same)
  then show "in_group (''vdc_'' @ vdc) h iv'" by (intro keep k6)
  have "in_group (''vdc_'' @ vdc @ ''_vapp_'' @ vapp) h ?iv5"
    by (rule in_group_append_same)
  then show "in_group (''vdc_'' @ vdc @ ''_vapp_'' @ vapp) h iv'" by (intro keep k6)
  show "in_group (''hwprof_'' @ hw) h iv'" if "hw \<noteq> []"
  proof -
    from that have "in_group (''hwprof_'' @ hw) h ?iv6" by (simp add: in_group_append_same)
    then show ?thesis by (rule keep)
  qed
  show "in_group (''var_'' @ sanitize var @ ''_'' @ sanitize val) h iv'"
    if v: "map_of attrs ''variables'' = Some (JObj kvs)" "map_of kvs var = Some (JStr val)"
  proof -
    from r v(1) have "group_variables (JObj kvs) h ?iv6 = Inr iv'" by simp
    from group_variables_adds[OF this v(2)] show ?thesis .
  qed
qed


lemma sanitize_filter_map:
  "sanitize s = map (\<lambda>c. if c = CHR '' '' then CHR ''_'' else c)
                    (filter (\<lambda>c. c \<noteq> CHR ''['' \<and> c \<noteq> CHR '']'') s)"
  unfolding sanitize_def replace_delete replace_single
  by (simp add: conj_commute)

lemma name_step_sanitizes:
  assumes "link_title l = Some t"
  shows "link_rel l = ''virtualappliance'' \<Longrightarrow>
           name_step l (lo, hw) = Inr (lo\<lparr>vm_vapp := Some (sanitize t)\<rparr>, hw)"
    and "link_rel l = ''virtualdatacenter'' \<Longrightarrow>
           name_step l (lo, hw) = Inr (lo\<lparr>vm_vdc := Some (sanitize t)\<rparr>, hw)"
    and "link_rel l = ''virtualmachinetemplate'' \<Longrightarrow>
           name_step l (lo, hw) = Inr (lo\<lparr>vm_template := Some (sanitize t)\<rparr>, hw)"
    and "link_rel l = ''hardwareprofile'' \<Longrightarrow> name_step l (lo, hw) = Inr (lo, sanitize t)"
  using assms by (simp_all add: name_step_def get_title_def)

text \<open>
  C6: every component of a group name goes through \<open>sanitize\<close>, which deletes every
  \<open>[\<close> and \<open>]\<close> and replaces every space with an underscore. The name loop stores the
  sanitized title of the application-group, datacenter and template links in the locals and
  that of the hardware-profile link in \<open>hw_profile\<close>; the loop over the custom variables
  appends the host to the group \<open>var_<key>_<value>\<close> built from the sanitized key and the
  sanitized value; and \<open>add_host\<close> puts the host into the groups \<open>template_\<close>, \<open>vapp_\<close>,
  \<open>vdc_\<close>, \<open>vdc_.._vapp_..\<close> and \<open>hwprof_\<close> named by exactly these stored components, and
  into the group of every custom variable with a string value. The datacenter title
  \<open>[Main DC]\<close> gives the component \<open>Main_DC\<close>.
\<close>
theorem group_name_components_are_sanitized:
  "sanitize s = map (\<lambda>c. if c = CHR '' '' then CHR ''_'' else c)
                    (filter (\<lambda>c. c \<noteq> CHR ''['' \<and> c \<noteq> CHR '']'') s)
   \<and> (link_title l = Some t \<longrightarrow>
        (link_rel l = ''virtualappliance'' \<longrightarrow>
           name_step l (lo, hw) = Inr (lo\<lparr>vm_vapp := Some (sanitize t)\<rparr>, hw))
      \<and> (link_rel l = ''virtualdatacenter'' \<longrightarrow>
           name_step l (lo, hw) = Inr (lo\<lparr>vm_vdc := Some (sanitize t)\<rparr>, hw))
      \<and> (link_rel l = ''virtualmachinetemplate'' \<longrightarrow>
           name_step l (lo, hw) = Inr (lo\<lparr>vm_template := Some (sanitize t)\<rparr>, hw))
      \<and> (link_rel l = ''hardwareprofile'' \<longrightarrow>
           name_step l (lo, hw) = Inr (lo, sanitize t)))
   \<and> (map_of variables var = Some (JStr val) \<longrightarrow>
        var_step variables h var iv
          = Inr (append_group (''var_'' @ sanitize var @ ''_'' @ sanitize val) h iv))
   \<and> (add_host h hv lo' hw' attrs iv = Inr iv' \<and> vm_template lo' = Some tmpl
        \<and> vm_vapp lo' = Some vapp \<and> vm_vdc lo' = Some vdc \<longrightarrow>
        in_group (''template_'' @ tmpl) h iv' \<and> in_group (''vapp_'' @ vapp) h iv'
      \<and> in_group (''vdc_'' @ vdc) h iv'
      \<and> in_group (''vdc_'' @ vdc @ ''_vapp_'' @ vapp) h iv'
      \<and> (hw' \<noteq> [] \<longrightarrow> in_group (''hwprof_'' @ hw') h iv')
      \<and> (\<forall>kvs k v. map_of attrs ''variables'' = Some (JObj kvs) \<and> map_of kvs k = Some (JStr v)
            \<longrightarrow> in_group (''var_'' @ sanitize k @ ''_'' @ sanitize v) h iv'))"
proof (intro conjI impI allI)
  show "sanitize s = map (\<lambda>c. if c = CHR '' '' then CHR ''_'' else c)
                    (filter (\<lambda>c. c \<noteq> CHR ''['' \<and> c \<noteq> CHR '']'') s)"
    by (rule sanitize_filter_map)
next
  assume "link_title l = Some t" "link_rel l = ''virtualappliance''"
  then show "name_step l (lo, hw) = Inr (lo\<lparr>vm_vapp := Some (sanitize t)\<rparr>, hw)"
    by (rule name_step_sanitizes)
next
  assume "link_title l = Some t" "link_rel l = ''virtualdatacenter''"
  then show "name_step l (lo, hw) = Inr (lo\<lparr>vm_vdc := Some (sanitize t)\<rparr>, hw)"
    by (rule name_step_sanitizes)
next
  assume "link_title l = Some t" "link_rel l = ''virtualmachinetemplate''"
  then show "name_step l (lo, hw) = Inr (lo\<lparr>vm_template := Some (sanitize t)\<rparr>, hw)"
    by (rule name_step_sanitizes)
next
  assume "link_title l = Some t" "link_rel l = ''hardwareprofile''"
  then show "name_step l (lo, hw) = Inr (lo, sanitize t)"
    by (rule name_step_sanitizes)
next
  assume "map_of variables var = Some (JStr val)"
  then show "var_step variables h var iv
          = Inr (append_group (''var_'' @ sanitize var @ ''_'' @ sanitize val) h iv)"
    by (rule var_step_adds)
next
  assume a: "add_host h hv lo' hw' attrs iv = Inr iv' \<and> vm_template lo' = Some tmpl
        \<and> vm_vapp lo' = Some vapp \<and> vm_vdc lo' = Some vdc"
  then have b: "add_host h hv lo' hw' attrs iv = Inr iv'" "vm_template lo' = Some tmpl"
    "vm_vapp lo' = Some vapp" "vm_vdc lo' = Some vdc" by simp_all
  note g = add_host_groups[OF b]
  show "in_group (''template_'' @ tmpl) h iv'" by (rule g(1))
  show "in_group (''vapp_'' @ vapp) h iv'" by (rule g(2))
  show "in_group (''vdc_'' @ vdc) h iv'" by (rule g(3))
  show "in_group (''vdc_'' @ vdc @ ''_vapp_'' @ vapp) h iv'" by (rule g(4))
  show "in_group (''hwprof_'' @ hw') h iv'" if "hw' \<noteq> []" using that by (rule g(5))
  show "in_group (''var_'' @ sanitize k @ ''_'' @ sanitize v) h iv'"
    if "map_of attrs ''variables'' = Some (JObj kvs) \<and> map_of kvs k = Some (JStr v)" for kvs k v
    using that g(6)[of kvs k v] by simp
qed

theorem group_name_components_are_sanitized_witness:
  "sanitize ''[Main DC]'' = ''Main_DC''
   \<and> name_step (lnk ''virtualdatacenter'' ''[Main DC]''
                  ''application/vnd.abiquo.virtualdatacenter+json'') (unbound_locals, [])
       = Inr (unbound_locals\<lparr>vm_vdc := Some ''Main_DC''\<rparr>, [])
   \<and> fold_err name_step (json_links ex_vm_brackets) (unbound_locals, [])
       = Inr (ex_brackets_locals, ''hw_big_one'')
   \<and> (\<exists>st. vm_loop ex_config [ex_vm_brackets] (unbound_locals, empty_inventory) = Ok st
            \<and> groups (snd st) = ex_brackets_groups)
   \<and> add_host ''10.0.0.5'' [] ex_brackets_locals ''hw_big_one'' (json_attrs ex_vm_brackets)
        empty_inventory
       = Inr \<lparr>hostvars = [(''10.0.0.5'', [])], groups = ex_brackets_groups\<rparr>
   \<and> in_group ''vdc_Main_DC'' ''10.0.0.5''
        \<lparr>hostvars = [(''10.0.0.5'', [])], groups = ex_brackets_groups\<rparr>
   \<and> in_group ''hwprof_hw_big_one'' ''10.0.0.5''
        \<lparr>hostvars = [(''10.0.0.5'', [])], groups = ex_brackets_groups\<rparr>
   \<and> in_group ''var_my_env_prod_1'' ''10.0.0.5''
        \<lparr>hostvars = [(''10.0.0.5'', [])], groups = ex_brackets_groups\<rparr>"
proof -
  let ?iv = "\<lparr>hostvars = [(''10.0.0.5'', [])], groups = ex_brackets_groups\<rparr>"
  let ?l = "lnk ''virtualdatacenter'' ''[Main DC]'' ''application/vnd.abiquo.virtualdatacenter+json''"
  note t = group_name_components_are_sanitized
    [of "''[Main DC]''" ?l "''[Main DC]''" unbound_locals "[]"
        "[(''my env'', JStr ''pro[d] 1'')]" "''my env''" "''pro[d] 1''" "''10.0.0.5''"
        empty_inventory "[]" ex_brackets_locals "''hw_big_one''" "json_attrs ex_vm_brackets"
        ?iv "''Ubuntu_20.04''" "''Web_Tier''" "''Main_DC''"]
  have s1: "sanitize ''[Main DC]'' = ''Main_DC''" by code_simp
  have s2: "sanitize ''my env'' = ''my_env''" "sanitize ''pro[d] 1'' = ''prod_1''" by code_simp+
  have lt: "link_title ?l = Some ''[Main DC]''" "link_rel ?l = ''virtualdatacenter''"
    by (simp_all add: lnk_def)
  have ns: "name_step ?l (unbound_locals, []) = Inr (unbound_locals\<lparr>vm_vdc := Some ''Main_DC''\<rparr>, [])"
    using t lt s1 by simp
  have fl: "fold_err name_step (json_links ex_vm_brackets) (unbound_locals, [])
       = Inr (ex_brackets_locals, ''hw_big_one'')" by code_simp
  have vl: "vm_loop ex_config [ex_vm_brackets] (unbound_locals, empty_inventory)
       = Ok (ex_brackets_locals\<lparr>vm_nic := Title ''10.0.0.5''\<rparr>,
             \<lparr>hostvars = hostvars (snd (case vm_loop ex_config [ex_vm_brackets]
                   (unbound_locals, empty_inventory) of Ok st \<Rightarrow> st)),
              groups = ex_brackets_groups\<rparr>)" by code_simp
  have ah: "add_host ''10.0.0.5'' [] ex_brackets_locals ''hw_big_one''
              (json_attrs ex_vm_brackets) empty_inventory = Inr ?iv" by code_simp
  have lo: "vm_template ex_brackets_locals = Some ''Ubuntu_20.04''"
    "vm_vapp ex_brackets_locals = Some ''Web_Tier''" "vm_vdc ex_brackets_locals = Some ''Main_DC''"
    by (simp_all add: ex_brackets_locals_def)
  have va: "map_of (json_attrs ex_vm_brackets) ''variables'' = Some (JObj [(''my env'', JStr ''pro[d] 1'')])"
    by code_simp
  have g1: "in_group ''vdc_Main_DC'' ''10.0.0.5'' ?iv"
    and g2: "in_group ''hwprof_hw_big_one'' ''10.0.0.5'' ?iv"
    using t ah lo by simp_all
  have g3: "in_group (''var_'' @ sanitize ''my env'' @ ''_'' @ sanitize ''pro[d] 1'') ''10.0.0.5'' ?iv"
    using t ah lo va by simp
  then have g3': "in_group ''var_my_env_prod_1'' ''10.0.0.5'' ?iv" by (simp add: s2)
  from vl have "\<exists>st. vm_loop ex_config [ex_vm_brackets] (unbound_locals, empty_inventory) = Ok st
            \<and> groups (snd st) = ex_brackets_groups" by (metis inventory.select_convs(2) snd_conv)
  with s1 ns fl ah g1 g2 g3' show ?thesis by blast
qed

end
